theory Spec2Isabelle
  imports Complex_Main "HOL-Library.Stream"
begin

section \<open>A feed-forward network with back-propagation: the model\<close>

text \<open>
  The program is the Go package \<open>nn\<close> (files \<open>nn.go\<close> and the helper file with
  \<open>lerp\<close>, \<open>sigmoid\<close>, \<open>randomArray\<close> and the matrix wrappers). Conventions of the model:
  \<^item> Go's \<open>float64\<close> is modelled by \<open>real\<close>: arithmetic is exact, there is no rounding,
    overflow, infinity or NaN. Two places need more and have it: the activation function
    of the forward evaluation is also evaluated with rounding (\<open>sigmoid64\<close>, \<open>Calc64\<close>), and
    the learning rate that \<open>Save\<close> encodes may be NaN or infinite (\<open>float64\<close>). Go's \<open>int\<close> is
    modelled by \<open>int\<close>.
  \<^item> A panic is a value \<open>Inl e\<close> of a sum type; where the code has already changed the
    network when it panics, the function returns the panic together with the state reached.
  \<^item> The pseudo-random generator is a stream of the values that successive calls of
    \<open>rand.Float64()\<close> return.
\<close>

subsection \<open>Panics\<close>

datatype error =
    errInvalidDataSize      \<comment> \<open>the package's own \<open>errInvalidDataSize\<close>\<close>
  | IndexOutOfRange         \<comment> \<open>Go run-time: index out of range\<close>
  | NegativeLen             \<comment> \<open>Go run-time: \<open>make\<close> with a negative length\<close>
  | NilDereference          \<comment> \<open>Go run-time: method call on a nil interface\<close>
  | IntegerDivideByZero     \<comment> \<open>Go run-time: integer divide by zero\<close>
  | ErrShape                \<comment> \<open>gonum: dimension mismatch\<close>
  | ErrZeroLength           \<comment> \<open>gonum: zero length in matrix dimension\<close>
  | ErrNegativeDimension    \<comment> \<open>gonum: negative dimension\<close>

definition bindE :: "error + 'a \<Rightarrow> ('a \<Rightarrow> error + 'b) \<Rightarrow> error + 'b" where
  "bindE m f = (case m of Inl e \<Rightarrow> Inl e | Inr x \<Rightarrow> f x)"

text \<open>A Go index expression \<open>xs[k]\<close> with an \<open>int\<close> index.\<close>

definition idx :: "'a list \<Rightarrow> int \<Rightarrow> error + 'a" where
  "idx xs k = (if 0 \<le> k \<and> k < int (length xs) then Inr (xs ! nat k) else Inl IndexOutOfRange)"

text \<open>A counting loop whose body may panic: the loop stops at the first panic.\<close>

primrec foldE :: "('s \<Rightarrow> nat \<Rightarrow> error + 's) \<Rightarrow> nat list \<Rightarrow> 's \<Rightarrow> error + 's" where
  "foldE f [] s = Inr s"
| "foldE f (k # ks) s = bindE (f s k) (foldE f ks)"

text \<open>The same for a body that changes the state before it panics.\<close>

primrec foldS :: "('s \<Rightarrow> nat \<Rightarrow> error option \<times> 's) \<Rightarrow> nat list \<Rightarrow> 's \<Rightarrow> error option \<times> 's" where
  "foldS f [] s = (None, s)"
| "foldS f (k # ks) s =
     (case f s k of
        (Some e, s') \<Rightarrow> (Some e, s')
      | (None, s') \<Rightarrow> foldS f ks s')"

subsection \<open>Dense matrices\<close>

text \<open>
  Modelled from the spec: the dense-matrix library (gonum's \<open>mat\<close> package) is not part of
  the repository. Section 3 and 4.1 of the specification give it the standard semantics:
  a matrix is a two-dimensional array with row and column dimensions, every operation
  allocates its result, the matrix product needs left columns = right rows, the
  element-wise operations need identical dimensions and fail otherwise. A \<open>Dense\<close> value is
  kept as gonum keeps it: the dimensions and the entries in row-major order. As in gonum,
  \<open>NewDense\<close> panics on a dimension that is not positive and on a data slice of the wrong
  length, and an operation panics with \<open>ErrShape\<close> when its receiver or its operands do not
  have the required dimensions.
\<close>

record Dense =
  Rows :: nat
  Cols :: nat
  Data :: "real list"

definition At :: "Dense \<Rightarrow> nat \<Rightarrow> nat \<Rightarrow> real" where
  "At m r c = Data m ! (r * Cols m + c)"

definition Dims :: "Dense \<Rightarrow> nat \<times> nat" where
  "Dims m = (Rows m, Cols m)"

definition tabulate :: "nat \<Rightarrow> nat \<Rightarrow> (nat \<Rightarrow> nat \<Rightarrow> real) \<Rightarrow> Dense" where
  "tabulate r c f =
     \<lparr>Rows = r, Cols = c, Data = concat (map (\<lambda>a. map (\<lambda>b. f a b) [0..<c]) [0..<r])\<rparr>"

definition NewDense :: "int \<Rightarrow> int \<Rightarrow> real list option \<Rightarrow> error + Dense" where
  "NewDense r c data =
     (if r \<le> 0 \<or> c \<le> 0 then
        (if r = 0 \<or> c = 0 then Inl ErrZeroLength else Inl ErrNegativeDimension)
      else case data of
        None \<Rightarrow> Inr \<lparr>Rows = nat r, Cols = nat c, Data = replicate (nat r * nat c) 0\<rparr>
      | Some d \<Rightarrow>
          if r * c \<noteq> int (length d) then Inl ErrShape
          else Inr \<lparr>Rows = nat r, Cols = nat c, Data = d\<rparr>)"

text \<open>The operations of section 4.1 as total functions on matrices of fitting dimensions.\<close>

definition transpose_m :: "Dense \<Rightarrow> Dense" where
  "transpose_m m = tabulate (Cols m) (Rows m) (\<lambda>a b. At m b a)"

definition matmul :: "Dense \<Rightarrow> Dense \<Rightarrow> Dense" where
  "matmul a b =
     tabulate (Rows a) (Cols b)
       (\<lambda>r c. sum_list (map (\<lambda>k. At a r k * At b k c) [0..<Cols a]))"

definition hadamard :: "Dense \<Rightarrow> Dense \<Rightarrow> Dense" where
  "hadamard a b = tabulate (Rows a) (Cols a) (\<lambda>r c. At a r c * At b r c)"

definition apply_m :: "(int \<Rightarrow> int \<Rightarrow> real \<Rightarrow> real) \<Rightarrow> Dense \<Rightarrow> Dense" where
  "apply_m fn a = tabulate (Rows a) (Cols a) (\<lambda>r c. fn (int r) (int c) (At a r c))"

definition scale_m :: "real \<Rightarrow> Dense \<Rightarrow> Dense" where
  "scale_m f a = tabulate (Rows a) (Cols a) (\<lambda>r c. f * At a r c)"

definition add_m :: "Dense \<Rightarrow> Dense \<Rightarrow> Dense" where
  "add_m a b = tabulate (Rows a) (Cols a) (\<lambda>r c. At a r c + At b r c)"

definition sub_m :: "Dense \<Rightarrow> Dense \<Rightarrow> Dense" where
  "sub_m a b = tabulate (Rows a) (Cols a) (\<lambda>r c. At a r c - At b r c)"

text \<open>The transposed view \<open>m.T()\<close>.\<close>

definition T :: "Dense \<Rightarrow> Dense" where
  "T m = transpose_m m"

text \<open>
  The methods \<open>Product\<close>, \<open>MulElem\<close>, \<open>Apply\<close>, \<open>Scale\<close>, \<open>Add\<close> and \<open>Sub\<close> write into their
  receiver; the first argument of each is the receiver the wrapper has allocated.
\<close>

definition Product :: "Dense \<Rightarrow> Dense \<Rightarrow> Dense \<Rightarrow> error + Dense" where
  "Product res a b =
     (if Cols a \<noteq> Rows b then Inl ErrShape
      else if Dims res \<noteq> (Rows a, Cols b) then Inl ErrShape
      else Inr (matmul a b))"

definition MulElem :: "Dense \<Rightarrow> Dense \<Rightarrow> Dense \<Rightarrow> error + Dense" where
  "MulElem res a b =
     (if Dims a \<noteq> Dims b then Inl ErrShape
      else if Dims res \<noteq> Dims a then Inl ErrShape
      else Inr (hadamard a b))"

definition Apply :: "Dense \<Rightarrow> (int \<Rightarrow> int \<Rightarrow> real \<Rightarrow> real) \<Rightarrow> Dense \<Rightarrow> error + Dense" where
  "Apply res fn a =
     (if Dims res \<noteq> Dims a then Inl ErrShape
      else Inr (apply_m fn a))"

definition Scale :: "Dense \<Rightarrow> real \<Rightarrow> Dense \<Rightarrow> error + Dense" where
  "Scale res f a =
     (if Dims res \<noteq> Dims a then Inl ErrShape
      else Inr (scale_m f a))"

definition Add :: "Dense \<Rightarrow> Dense \<Rightarrow> Dense \<Rightarrow> error + Dense" where
  "Add res a b =
     (if Dims a \<noteq> Dims b then Inl ErrShape
      else if Dims res \<noteq> Dims a then Inl ErrShape
      else Inr (add_m a b))"

definition Sub :: "Dense \<Rightarrow> Dense \<Rightarrow> Dense \<Rightarrow> error + Dense" where
  "Sub res a b =
     (if Dims a \<noteq> Dims b then Inl ErrShape
      else if Dims res \<noteq> Dims a then Inl ErrShape
      else Inr (sub_m a b))"

subsection \<open>The helper file: \<open>lerp\<close>, the activation, random arrays, the wrappers\<close>

definition lerp :: "real \<Rightarrow> real \<Rightarrow> real \<Rightarrow> real \<Rightarrow> real \<Rightarrow> real" where
  "lerp x li ui lo uo = ((x - li) / (ui - li)) * (uo - lo) + lo"

definition sigmoid :: "int \<Rightarrow> int \<Rightarrow> real \<Rightarrow> real" where
  "sigmoid r c v = 1 / (1 + exp (- v))"

definition dSigmoid :: "int \<Rightarrow> int \<Rightarrow> real \<Rightarrow> real" where
  "dSigmoid r c v = sigmoid 0 0 v * (1 - sigmoid 0 0 v)"

text \<open>
  \<open>randomArray size u l\<close> reseeds the generator and takes \<open>size\<close> draws; the stream is the
  sequence of values \<open>rand.Float64()\<close> returns from then on.
\<close>

definition randomArray ::
  "int \<Rightarrow> real \<Rightarrow> real \<Rightarrow> real stream \<Rightarrow> error + (real list \<times> real stream)" where
  "randomArray sz u l rnd =
     (if sz < 0 then Inl NegativeLen
      else Inr (map (\<lambda>x. lerp x 0 1 u l) (stake (nat sz) rnd), sdrop (nat sz) rnd))"

definition dot :: "Dense \<Rightarrow> Dense \<Rightarrow> error + Dense" where
  "dot m n = bindE (NewDense (int (Rows m)) (int (Cols n)) None) (\<lambda>res. Product res m n)"

definition mul :: "Dense \<Rightarrow> Dense \<Rightarrow> error + Dense" where
  "mul m n = bindE (NewDense (int (Rows m)) (int (Cols n)) None) (\<lambda>res. MulElem res m n)"

definition fun_mat :: "(int \<Rightarrow> int \<Rightarrow> real \<Rightarrow> real) \<Rightarrow> Dense \<Rightarrow> error + Dense" where
  "fun_mat fn m = bindE (NewDense (int (Rows m)) (int (Cols m)) None) (\<lambda>res. Apply res fn m)"

definition scl :: "real \<Rightarrow> Dense \<Rightarrow> error + Dense" where
  "scl f m = bindE (NewDense (int (Rows m)) (int (Cols m)) None) (\<lambda>res. Scale res f m)"

definition add :: "Dense \<Rightarrow> Dense \<Rightarrow> error + Dense" where
  "add m n = bindE (NewDense (int (Rows m)) (int (Cols m)) None) (\<lambda>res. Add res m n)"

definition sub :: "Dense \<Rightarrow> Dense \<Rightarrow> error + Dense" where
  "sub m n = bindE (NewDense (int (Rows m)) (int (Cols m)) None) (\<lambda>res. Sub res m n)"

definition totalCost :: "real list \<Rightarrow> real list \<Rightarrow> error + real" where
  "totalCost got expected =
     (if length got \<noteq> length expected then Inl errInvalidDataSize
      else Inr (foldl (\<lambda>total k. total + (got ! k - expected ! k) ^ 2) 0 [0..<length got]))"

subsection \<open>Layers and networks\<close>

record layer =
  weights :: Dense
  biases :: Dense

definition newLayer ::
  "int \<Rightarrow> int \<Rightarrow> bool \<Rightarrow> real stream \<Rightarrow> error + (layer \<times> real stream)" where
  "newLayer layerSize inputSize random rnd =
     (if random then
        bindE (randomArray (layerSize * inputSize) (- 1) 1 rnd) (\<lambda>(wd, rnd1).
        bindE (NewDense layerSize inputSize (Some wd)) (\<lambda>w.
        bindE (randomArray layerSize (- 1) 1 rnd1) (\<lambda>(bd, rnd2).
        bindE (NewDense layerSize 1 (Some bd)) (\<lambda>b.
        Inr (\<lparr>weights = w, biases = b\<rparr>, rnd2)))))
      else
        bindE (NewDense layerSize inputSize None) (\<lambda>w.
        bindE (NewDense layerSize 1 None) (\<lambda>b.
        Inr (\<lparr>weights = w, biases = b\<rparr>, rnd))))"

text \<open>
  The fields \<open>i\<close>, \<open>o\<close> and \<open>h\<close> of the Go struct are \<open>net_i\<close>, \<open>net_o\<close> and \<open>net_h\<close> here.
  The learning rate is the one \<open>float64\<close> of a network that is also written as JSON, which
  has no notation for NaN and the infinities. Its type is a parameter of the record: a
  \<open>Network\<close> has a real learning rate, a finite \<open>float64\<close>, which is what training computes
  with and what \<open>Load\<close> decodes; \<open>NewNetwork\<close> stores whatever it is given, and \<open>Save\<close> takes a
  network whose learning rate is any \<open>float64\<close>.
\<close>

record 'f Network_of =
  net_i :: int
  net_o :: int
  net_h :: int
  hidden :: "int list"
  layers :: "layer list"
  learnRate :: 'f

type_synonym Network = "real Network_of"

text \<open>
  \<open>NewNetwork\<close> fills the slots of its layer array in the order \<open>0, 1, ...\<close>; the state of
  the loop is the list of the layers assigned so far (the remaining slots are never read).
\<close>

definition NewNetwork_body ::
  "int \<Rightarrow> int \<Rightarrow> int list \<Rightarrow> bool \<Rightarrow> layer list \<times> real stream \<Rightarrow> nat \<Rightarrow>
     error + (layer list \<times> real stream)" where
  "NewNetwork_body inputs outputs hid random s k =
     (case s of (ls, rnd) \<Rightarrow>
        if k = 0 then
          bindE (idx hid (int k)) (\<lambda>h0.
          bindE (newLayer h0 inputs random rnd) (\<lambda>(l, rnd'). Inr (ls @ [l], rnd')))
        else if k = length hid then
          bindE (idx hid (int k - 1)) (\<lambda>hp.
          bindE (newLayer outputs hp random rnd) (\<lambda>(l, rnd'). Inr (ls @ [l], rnd')))
        else
          bindE (idx hid (int k)) (\<lambda>hk.
          bindE (idx hid (int k - 1)) (\<lambda>hp.
          bindE (newLayer hk hp random rnd) (\<lambda>(l, rnd'). Inr (ls @ [l], rnd')))))"

definition NewNetwork ::
  "int \<Rightarrow> int \<Rightarrow> int list \<Rightarrow> 'f \<Rightarrow> bool \<Rightarrow> real stream \<Rightarrow>
     error + ('f Network_of \<times> real stream)" where
  "NewNetwork inputs outputs hid learn random rnd =
     bindE (foldE (NewNetwork_body inputs outputs hid random) [0..<length hid + 1] ([], rnd))
       (\<lambda>(ls, rnd').
          Inr (\<lparr>net_i = inputs, net_o = outputs, net_h = int (length ls),
                hidden = hid, layers = ls, learnRate = learn\<rparr>, rnd'))"

subsection \<open>Forward evaluation\<close>

text \<open>
  The variable \<open>activation\<close> of \<open>Calc\<close> is a nil interface until the first iteration
  assigns it: \<open>None\<close> is nil.
\<close>

definition Calc_body :: "Network \<Rightarrow> Dense \<Rightarrow> Dense option \<Rightarrow> nat \<Rightarrow> error + Dense option" where
  "Calc_body n inputs activation k =
     (if k = 0 then
        bindE (idx (layers n) (int k)) (\<lambda>l.
        bindE (dot (weights l) inputs) (\<lambda>wx.
        bindE (add wx (biases l)) (\<lambda>z.
        bindE (fun_mat sigmoid z) (\<lambda>a. Inr (Some a)))))
      else
        bindE (idx (layers n) (int k)) (\<lambda>l.
        bindE (case activation of None \<Rightarrow> Inl NilDereference | Some act \<Rightarrow> Inr act) (\<lambda>act.
        bindE (dot (weights l) act) (\<lambda>wx.
        bindE (add wx (biases l)) (\<lambda>z.
        bindE (fun_mat sigmoid z) (\<lambda>a. Inr (Some a)))))))"

definition Calc :: "Network \<Rightarrow> real list \<Rightarrow> error + real list" where
  "Calc n data =
     (if int (length data) \<noteq> net_i n then Inl errInvalidDataSize
      else
        bindE (NewDense (net_i n) 1 (Some data)) (\<lambda>inputs.
        bindE (foldE (Calc_body n inputs) [0..<nat (net_h n)] None) (\<lambda>activation.
        case activation of
          None \<Rightarrow> Inl NilDereference
        | Some a \<Rightarrow> Inr (map (\<lambda>r. At a r 0) [0..<Rows a]))))"

subsection \<open>Back-propagation\<close>

text \<open>
  The first loop of \<open>backpropagate\<close> fills the arrays \<open>zs\<close> and \<open>activations\<close> in the order
  \<open>0, 1, ...\<close>; its state is the pair of the entries assigned so far.
\<close>

definition forward_body ::
  "Network \<Rightarrow> Dense \<Rightarrow> Dense list \<times> Dense list \<Rightarrow> nat \<Rightarrow> error + (Dense list \<times> Dense list)" where
  "forward_body n input s k =
     (case s of (zs, activations) \<Rightarrow>
        if k = 0 then
          bindE (idx (layers n) (int k)) (\<lambda>l.
          bindE (dot (weights l) input) (\<lambda>wx.
          bindE (add wx (biases l)) (\<lambda>z.
          bindE (fun_mat sigmoid z) (\<lambda>a. Inr (zs @ [z], activations @ [a])))))
        else
          bindE (idx (layers n) (int k)) (\<lambda>l.
          bindE (idx activations (int k - 1)) (\<lambda>prev.
          bindE (dot (weights l) prev) (\<lambda>wx.
          bindE (add wx (biases l)) (\<lambda>z.
          bindE (fun_mat sigmoid z) (\<lambda>a. Inr (zs @ [z], activations @ [a])))))))"

text \<open>
  Everything \<open>backpropagate\<close> does before its second loop: the length checks, the two input
  matrices, the forward pass and the output error. Nothing is assigned to the network yet.
\<close>

definition backpropagate_prelude ::
  "Network \<Rightarrow> real list \<Rightarrow> real list \<Rightarrow> error + (Dense \<times> Dense list \<times> Dense list \<times> Dense)" where
  "backpropagate_prelude n inputData expectedData =
     (if int (length inputData) \<noteq> net_i n \<or> int (length expectedData) \<noteq> net_o n
      then Inl errInvalidDataSize
      else
        bindE (NewDense (net_i n) 1 (Some inputData)) (\<lambda>input.
        bindE (NewDense (net_o n) 1 (Some expectedData)) (\<lambda>expected.
        bindE (if net_h n < 0 then Inl NegativeLen else Inr ()) (\<lambda>u.
        bindE (foldE (forward_body n input) [0..<nat (net_h n)] ([], [])) (\<lambda>(zs, activations).
        bindE (idx activations (net_h n - 1)) (\<lambda>last_a.
        bindE (sub expected last_a) (\<lambda>layerErrors.
        Inr (input, zs, activations, layerErrors))))))))"

text \<open>
  One iteration of the second loop. Its state is the layer array of the network, which the
  iteration assigns to, and the variable \<open>layerErrors\<close>. The iteration reads
  \<open>n.layers[i+1].weights\<close> from the array as it is at that moment.
\<close>

definition backward_body ::
  "Network \<Rightarrow> Dense \<Rightarrow> Dense list \<Rightarrow> Dense list \<Rightarrow> layer list \<times> Dense \<Rightarrow> nat \<Rightarrow>
     error option \<times> (layer list \<times> Dense)" where
  "backward_body n input zs activations s k =
     (case s of (ls, layerErrors) \<Rightarrow>
        case (if int k \<noteq> net_h n - 1
              then bindE (idx ls (int k + 1)) (\<lambda>l1. dot (T (weights l1)) layerErrors)
              else Inr layerErrors) of
          Inl e \<Rightarrow> (Some e, (ls, layerErrors))
        | Inr le \<Rightarrow>
           (case bindE (idx ls (int k)) (\<lambda>l.
                 bindE (idx zs (int k)) (\<lambda>z.
                 bindE (fun_mat dSigmoid z) (\<lambda>d.
                 bindE (mul le d) (\<lambda>g.
                 bindE (scl (2 * learnRate n) g) (\<lambda>sg.
                 bindE (add (biases l) sg) (\<lambda>b.
                 Inr (ls[k := l\<lparr>biases := b\<rparr>]))))))) of
              Inl e \<Rightarrow> (Some e, (ls, le))
            | Inr ls1 \<Rightarrow>
               (case bindE (idx ls1 (int k)) (\<lambda>l.
                     bindE (idx zs (int k)) (\<lambda>z.
                     bindE (fun_mat dSigmoid z) (\<lambda>d.
                     bindE (mul le d) (\<lambda>g.
                     bindE (if k = 0 then Inr (T input)
                            else bindE (idx activations (int k - 1)) (\<lambda>a. Inr (T a))) (\<lambda>prevT.
                     bindE (dot g prevT) (\<lambda>gw.
                     bindE (scl (learnRate n) gw) (\<lambda>sgw.
                     bindE (add (weights l) sgw) (\<lambda>w.
                     Inr (ls1[k := l\<lparr>weights := w\<rparr>]))))))))) of
                  Inl e \<Rightarrow> (Some e, (ls1, le))
                | Inr ls2 \<Rightarrow> (None, (ls2, le)))))"

text \<open>
  The second loop, \<open>for i := n.h - 1; i >= 0; i--\<close>, run from the last layer down to layer
  \<open>k\<close>; the whole loop is the run down to layer \<open>0\<close>.
\<close>

definition backward_run ::
  "Network \<Rightarrow> Dense \<Rightarrow> Dense list \<Rightarrow> Dense list \<Rightarrow> Dense \<Rightarrow> nat \<Rightarrow>
     error option \<times> (layer list \<times> Dense)" where
  "backward_run n input zs activations layerErrors k =
     foldS (backward_body n input zs activations) (rev [k..<nat (net_h n)])
       (layers n, layerErrors)"

definition backpropagate :: "Network \<Rightarrow> real list \<Rightarrow> real list \<Rightarrow> error option \<times> Network" where
  "backpropagate n inputData expectedData =
     (case backpropagate_prelude n inputData expectedData of
        Inl e \<Rightarrow> (Some e, n)
      | Inr (input, zs, activations, layerErrors) \<Rightarrow>
          (case backward_run n input zs activations layerErrors 0 of
             (e, (ls, le)) \<Rightarrow> (e, n\<lparr>layers := ls\<rparr>)))"

text \<open>
  The value of the variable \<open>layerErrors\<close> in the iteration of the second loop for layer
  \<open>k\<close>, when the call gets that far.
\<close>

definition layerErrors_at :: "Network \<Rightarrow> real list \<Rightarrow> real list \<Rightarrow> nat \<Rightarrow> Dense option" where
  "layerErrors_at n inputData expectedData k =
     (case backpropagate_prelude n inputData expectedData of
        Inl e \<Rightarrow> None
      | Inr (input, zs, activations, layerErrors) \<Rightarrow>
          (case backward_run n input zs activations layerErrors k of
             (Some e, s) \<Rightarrow> None
           | (None, (ls, le)) \<Rightarrow> Some le))"

subsection \<open>Training\<close>

text \<open>
  \<open>Train\<close> returns the panic, if any, the network as the call leaves it, and the average
  costs it prints, one per epoch. The elapsed times it prints are not modelled. Its last
  statement divides by \<open>epochs\<close>.
\<close>

definition Train_example ::
  "real list list \<Rightarrow> real list list \<Rightarrow> Network \<times> real \<Rightarrow> nat \<Rightarrow> error option \<times> (Network \<times> real)" where
  "Train_example inputs expected s k =
     (case s of (n, avgCost) \<Rightarrow>
        case bindE (idx inputs (int k)) (\<lambda>x. bindE (idx expected (int k)) (\<lambda>y. Inr (x, y))) of
          Inl e \<Rightarrow> (Some e, (n, avgCost))
        | Inr (x, y) \<Rightarrow>
           (case backpropagate n x y of
              (Some e, n') \<Rightarrow> (Some e, (n', avgCost))
            | (None, n') \<Rightarrow>
               (case bindE (Calc n' x) (\<lambda>got. totalCost y got) of
                  Inl e \<Rightarrow> (Some e, (n', avgCost))
                | Inr c \<Rightarrow> (None, (n', avgCost + c)))))"

definition Train_epoch ::
  "real list list \<Rightarrow> real list list \<Rightarrow> Network \<times> real list \<Rightarrow> nat \<Rightarrow>
     error option \<times> (Network \<times> real list)" where
  "Train_epoch inputs expected s epoch =
     (case s of (n, printed) \<Rightarrow>
        case foldS (Train_example inputs expected) [0..<length inputs] (n, 0) of
          (Some e, (n', avgCost)) \<Rightarrow> (Some e, (n', printed))
        | (None, (n', avgCost)) \<Rightarrow> (None, (n', printed @ [avgCost / real (length inputs)])))"

definition Train ::
  "Network \<Rightarrow> real list list \<Rightarrow> real list list \<Rightarrow> int \<Rightarrow> error option \<times> Network \<times> real list" where
  "Train n inputs expected epochs =
     (if length inputs \<noteq> length expected then (Some errInvalidDataSize, n, [])
      else
        case foldS (Train_epoch inputs expected) [0..<nat epochs] (n, []) of
          (Some e, (n', printed)) \<Rightarrow> (Some e, n', printed)
        | (None, (n', printed)) \<Rightarrow>
            if epochs = 0 then (Some IntegerDivideByZero, n', printed)
            else (None, n', printed))"

subsection \<open>Perturbation\<close>

definition Perturb_body ::
  "real \<Rightarrow> layer list \<times> real stream \<Rightarrow> nat \<Rightarrow> error option \<times> (layer list \<times> real stream)" where
  "Perturb_body strength s k =
     (case s of (ls, rnd) \<Rightarrow>
        case bindE (idx ls (int k)) (\<lambda>l.
             bindE (randomArray (int (Rows (weights l)) * int (Cols (weights l)))
                     (- 1 * strength) (1 * strength) rnd) (\<lambda>(wd, rnd1).
             bindE (NewDense (int (Rows (weights l))) (int (Cols (weights l))) (Some wd)) (\<lambda>wn.
             bindE (add (weights l) wn) (\<lambda>w.
             Inr (ls[k := l\<lparr>weights := w\<rparr>], rnd1))))) of
          Inl e \<Rightarrow> (Some e, (ls, rnd))
        | Inr (ls1, rnd1) \<Rightarrow>
           (case bindE (idx ls1 (int k)) (\<lambda>l.
                 bindE (randomArray (int (Rows (biases l)) * int (Cols (biases l)))
                         (- 1 * strength) (1 * strength) rnd1) (\<lambda>(bd, rnd2).
                 bindE (NewDense (int (Rows (biases l))) (int (Cols (biases l))) (Some bd)) (\<lambda>bn.
                 bindE (add (biases l) bn) (\<lambda>b.
                 Inr (ls1[k := l\<lparr>biases := b\<rparr>], rnd2))))) of
              Inl e \<Rightarrow> (Some e, (ls1, rnd1))
            | Inr (ls2, rnd2) \<Rightarrow> (None, (ls2, rnd2))))"

definition Perturb :: "Network \<Rightarrow> real \<Rightarrow> real stream \<Rightarrow> error option \<times> Network \<times> real stream" where
  "Perturb n strength rnd =
     (case foldS (Perturb_body strength) [0..<nat (net_h n)] (layers n, rnd) of
        (e, (ls, rnd')) \<Rightarrow> (e, n\<lparr>layers := ls\<rparr>, rnd'))"

subsection \<open>Persistence\<close>

text \<open>
  Modelled from the spec: the archive container, the JSON codec and the binary matrix codec
  (Go's \<open>archive/zip\<close> and \<open>encoding/json\<close>, gonum's \<open>MarshalBinary\<close> and
  \<open>UnmarshalBinaryFrom\<close>) are not part of the repository. Sections 4.8 and 6 of the
  specification describe them: an archive is a sequence of named entries; the metadata
  entry holds the encoding of a \<open>NetworkOptions\<close> record; a blob entry holds a
  self-describing binary encoding of the dimensions and of every entry of one matrix, and
  the encoding round-trips both without loss. An entry is therefore kept as what it
  decodes to, and decoding an entry with the other codec fails. A file system maps a path
  to a file, which is a well-formed archive or not, and says at which paths no file can be
  created. Entry names of an archive are looked up as in an association list.
\<close>

text \<open>
  The values of \<open>float64\<close>. Elsewhere only the finite ones occur, as real numbers; \<open>Save\<close>
  hands the learning rate to \<open>json.Marshal\<close>, which refuses the other three.
\<close>

datatype float64 = Finite real | PosInf | NegInf | NaN

text \<open>
  The struct \<open>NetworkOptions\<close>. The type of \<open>Learn\<close> is a parameter, as in the network: \<open>Save\<close>
  fills the struct from the network, and what \<open>json.Unmarshal\<close> decodes from a document
  has a real learning rate.
\<close>

record 'f NetworkOptions_of =
  opt_I :: int
  opt_O :: int
  opt_H :: "int list"
  opt_Learn :: 'f
  opt_WPaths :: "string list"
  opt_BPaths :: "string list"

type_synonym NetworkOptions = "real NetworkOptions_of"

datatype content = JSON NetworkOptions | Binary Dense | Other

type_synonym archive = "(string \<times> content) list"

datatype disk_file = ZipFile archive | NotZip

record fsys =
  files :: "string \<rightharpoonup> disk_file"
  cannot_create :: "string set"

text \<open>The errors that \<open>Save\<close> and \<open>Load\<close> return, as opposed to panics.\<close>

datatype ioerr = ErrCreate | ErrOpen | ErrNotExist | ErrJSON | ErrBinary | ErrUnsupportedValue

text \<open>\<open>fmt.Sprintf("%d", i)\<close> for a natural number: its decimal digits.\<close>

definition digit :: "nat \<Rightarrow> char" where
  "digit d = char_of (48 + d)"

fun show_nat :: "nat \<Rightarrow> string" where
  "show_nat n = (if n < 10 then [digit n] else show_nat (n div 10) @ [digit (n mod 10)])"

definition wname :: "nat \<Rightarrow> string" where
  "wname i = show_nat i @ ''w.bin''"

definition bname :: "nat \<Rightarrow> string" where
  "bname i = show_nat i @ ''b.bin''"

definition Save_options :: "'f Network_of \<Rightarrow> 'f NetworkOptions_of" where
  "Save_options n =
     \<lparr>opt_I = net_i n, opt_O = net_o n, opt_H = hidden n, opt_Learn = learnRate n,
      opt_WPaths = map wname [0..<nat (net_h n)], opt_BPaths = map bname [0..<nat (net_h n)]\<rparr>"

definition Save_body :: "'f Network_of \<Rightarrow> archive \<Rightarrow> nat \<Rightarrow> error + archive" where
  "Save_body n entries k =
     bindE (idx (layers n) (int k)) (\<lambda>l.
     bindE (idx (layers n) (int k)) (\<lambda>l'.
     Inr (entries @ [(wname k, Binary (weights l)), (bname k, Binary (biases l'))])))"

text \<open>
  Modelled from the documentation of \<open>encoding/json\<close>: \<open>json.Marshal\<close> returns the
  document, or no bytes and an \<open>UnsupportedValueError\<close> when a \<open>float64\<close> is NaN or infinite.
\<close>

definition json_Marshal :: "float64 NetworkOptions_of \<Rightarrow> ioerr + content" where
  "json_Marshal opts =
     (case opt_Learn opts of
        Finite r \<Rightarrow>
          Inr (JSON \<lparr>opt_I = opt_I opts, opt_O = opt_O opts, opt_H = opt_H opts, opt_Learn = r,
                     opt_WPaths = opt_WPaths opts, opt_BPaths = opt_BPaths opts\<rparr>)
      | PosInf \<Rightarrow> Inl ErrUnsupportedValue
      | NegInf \<Rightarrow> Inl ErrUnsupportedValue
      | NaN \<Rightarrow> Inl ErrUnsupportedValue)"

text \<open>
  \<open>Save\<close> returns an error or nil, unless it panics. It creates the file first: when it
  panics afterwards, the file is left without the directory of a zip archive. It never
  reads the error of \<open>json.Marshal\<close>: the next statement, \<open>_, err = meta.Write(metaJson)\<close>,
  assigns the variable again. After a failed \<open>json.Marshal\<close> it so writes no bytes to
  \<open>meta.json\<close>, which is no document (\<open>Other\<close>), and goes on to the blobs.
\<close>

definition Save :: "float64 Network_of \<Rightarrow> string \<Rightarrow> fsys \<Rightarrow> (error + ioerr option) \<times> fsys" where
  "Save n filename fs =
     (if filename \<in> cannot_create fs then (Inr (Some ErrCreate), fs)
      else if net_h n < 0
      then (Inl NegativeLen, fs\<lparr>files := (files fs)(filename \<mapsto> NotZip)\<rparr>)
      else
        case foldE (Save_body n) [0..<nat (net_h n)]
               [(''meta.json'', case json_Marshal (Save_options n) of
                                   Inl err \<Rightarrow> Other
                                 | Inr metaJson \<Rightarrow> metaJson)] of
          Inl e \<Rightarrow> (Inl e, fs\<lparr>files := (files fs)(filename \<mapsto> NotZip)\<rparr>)
        | Inr entries \<Rightarrow> (Inr None, fs\<lparr>files := (files fs)(filename \<mapsto> ZipFile entries)\<rparr>))"

text \<open>The zero value \<open>Network{}\<close>, which \<open>Load\<close> returns together with an error.\<close>

definition Network_zero :: Network where
  "Network_zero = \<lparr>net_i = 0, net_o = 0, net_h = 0, hidden = [], layers = [], learnRate = 0\<rparr>"

text \<open>
  One iteration of the loop of \<open>Load\<close>: it panics, returns an error from \<open>Load\<close> (\<open>Inr (Inl
  err)\<close>), or goes on with the layer array. \<open>Reset\<close> followed by \<open>UnmarshalBinaryFrom\<close> gives the
  matrix of the layer the dimensions and the entries of the blob.
\<close>

definition Load_body ::
  "NetworkOptions \<Rightarrow> archive \<Rightarrow> layer list \<Rightarrow> nat \<Rightarrow> error + (ioerr + layer list)" where
  "Load_body opts ar ls k =
     bindE (idx (opt_WPaths opts) (int k)) (\<lambda>wpath.
       case map_of ar wpath of
         None \<Rightarrow> Inr (Inl ErrNotExist)
       | Some wc \<Rightarrow>
          bindE (idx ls (int k)) (\<lambda>l.
            case wc of
              Binary wm \<Rightarrow>
                bindE (idx (opt_BPaths opts) (int k)) (\<lambda>bpath.
                  case map_of ar bpath of
                    None \<Rightarrow> Inr (Inl ErrNotExist)
                  | Some bc \<Rightarrow>
                     bindE (idx (ls[k := l\<lparr>weights := wm\<rparr>]) (int k)) (\<lambda>l'.
                       case bc of
                         Binary bm \<Rightarrow>
                           Inr (Inr ((ls[k := l\<lparr>weights := wm\<rparr>])[k := l'\<lparr>biases := bm\<rparr>]))
                       | _ \<Rightarrow> Inr (Inl ErrBinary)))
            | _ \<Rightarrow> Inr (Inl ErrBinary)))"

primrec Load_loop ::
  "NetworkOptions \<Rightarrow> archive \<Rightarrow> nat list \<Rightarrow> layer list \<Rightarrow> error + (ioerr + layer list)" where
  "Load_loop opts ar [] ls = Inr (Inr ls)"
| "Load_loop opts ar (k # ks) ls =
     (case Load_body opts ar ls k of
        Inl e \<Rightarrow> Inl e
      | Inr (Inl err) \<Rightarrow> Inr (Inl err)
      | Inr (Inr ls') \<Rightarrow> Load_loop opts ar ks ls')"

text \<open>
  \<open>Load\<close> returns a network and an error or nil, unless it panics. The stream is the
  generator, from which \<open>NewNetwork\<close> does not draw here.
\<close>

definition Load :: "string \<Rightarrow> fsys \<Rightarrow> real stream \<Rightarrow> error + (Network \<times> ioerr option)" where
  "Load filename fs rnd =
     (case files fs filename of
        None \<Rightarrow> Inr (Network_zero, Some ErrOpen)
      | Some NotZip \<Rightarrow> Inr (Network_zero, Some ErrOpen)
      | Some (ZipFile ar) \<Rightarrow>
         (case map_of ar ''meta.json'' of
            None \<Rightarrow> Inr (Network_zero, Some ErrNotExist)
          | Some (JSON opts) \<Rightarrow>
              bindE (NewNetwork (opt_I opts) (opt_O opts) (opt_H opts) (opt_Learn opts) False rnd)
                (\<lambda>(n, rnd').
              bindE (Load_loop opts ar [0..<nat (net_h n)] (layers n)) (\<lambda>r.
                case r of
                  Inl err \<Rightarrow> Inr (Network_zero, Some err)
                | Inr ls \<Rightarrow> Inr (n\<lparr>layers := ls\<rparr>, None)))
          | Some other \<Rightarrow> Inr (Network_zero, Some ErrJSON)))"

subsection \<open>The same operations on a store\<close>

text \<open>
  In Go a \<open>layer\<close> holds two interface values that point to \<open>Dense\<close> objects, and the
  \<open>layers\<close> field of a \<open>Network\<close> is a slice, a reference to an array of layers. \<open>Copy\<close>
  copies the array, not the matrices, so two networks can share matrix objects. The
  definitions above treat matrices and layer arrays as values; the definitions of this
  section keep the objects in a store, to settle what sharing can be observed. A matrix
  reference is nil (\<open>None\<close>), a pointer to a \<open>Dense\<close> object, or the transposed view
  \<open>m.T()\<close> of one. Objects are never freed: an address is an index into the list of
  objects allocated so far.
\<close>

type_synonym addr = nat

datatype matref = Ref addr | TRef addr

record layer_obj =
  weights_ref :: "matref option"
  biases_ref :: "matref option"

record store =
  dense :: "Dense list"
  layer_arrays :: "layer_obj list list"

record Network_obj =
  obj_i :: int
  obj_o :: int
  obj_h :: int
  obj_hidden :: "int list"
  obj_layers :: addr
  obj_learnRate :: real

text \<open>A computation on the store returns a value or panics, and leaves a store.\<close>

type_synonym 'a st = "store \<Rightarrow> (error + 'a) \<times> store"

definition returnS :: "'a \<Rightarrow> 'a st" where
  "returnS x s = (Inr x, s)"

definition liftE :: "error + 'a \<Rightarrow> 'a st" where
  "liftE r s = (r, s)"

definition bindS :: "'a st \<Rightarrow> ('a \<Rightarrow> 'b st) \<Rightarrow> 'b st" where
  "bindS m f s = (case m s of (Inl e, s') \<Rightarrow> (Inl e, s') | (Inr x, s') \<Rightarrow> f x s')"

primrec foldSt :: "('a \<Rightarrow> nat \<Rightarrow> 'a st) \<Rightarrow> nat list \<Rightarrow> 'a \<Rightarrow> 'a st" where
  "foldSt f [] x = returnS x"
| "foldSt f (k # ks) x = bindS (f x k) (foldSt f ks)"

text \<open>Reading the matrix behind a reference, allocating an object, writing into one.\<close>

definition load :: "matref option \<Rightarrow> Dense st" where
  "load r s =
     (case r of
        None \<Rightarrow> (Inl NilDereference, s)
      | Some (Ref a) \<Rightarrow>
          if a < length (dense s) then (Inr (dense s ! a), s) else (Inl NilDereference, s)
      | Some (TRef a) \<Rightarrow>
          if a < length (dense s) then (Inr (T (dense s ! a)), s) else (Inl NilDereference, s))"

definition NewDense_st :: "int \<Rightarrow> int \<Rightarrow> real list option \<Rightarrow> matref option st" where
  "NewDense_st r c data s =
     (case NewDense r c data of
        Inl e \<Rightarrow> (Inl e, s)
      | Inr m \<Rightarrow> (Inr (Some (Ref (length (dense s)))), s\<lparr>dense := dense s @ [m]\<rparr>))"

definition write_dense :: "matref option \<Rightarrow> Dense \<Rightarrow> unit st" where
  "write_dense r v s =
     (case r of
        Some (Ref a) \<Rightarrow>
          if a < length (dense s) then (Inr (), s\<lparr>dense := (dense s)[a := v]\<rparr>)
          else (Inl NilDereference, s)
      | _ \<Rightarrow> (Inl NilDereference, s))"

definition T_st :: "matref option \<Rightarrow> matref option st" where
  "T_st r =
     (case r of
        None \<Rightarrow> liftE (Inl NilDereference)
      | Some (Ref a) \<Rightarrow> returnS (Some (TRef a))
      | Some (TRef a) \<Rightarrow> returnS (Some (Ref a)))"

text \<open>
  The wrappers: each reads the dimensions of its operands, allocates the receiver \<open>res\<close>
  and lets the method write the result into it.
\<close>

definition dot_st :: "matref option \<Rightarrow> matref option \<Rightarrow> matref option st" where
  "dot_st m n =
     bindS (load m) (\<lambda>a. bindS (load n) (\<lambda>b.
     bindS (NewDense_st (int (Rows a)) (int (Cols b)) None) (\<lambda>res.
     bindS (load res) (\<lambda>z. bindS (liftE (Product z a b)) (\<lambda>v.
     bindS (write_dense res v) (\<lambda>u. returnS res))))))"

definition mul_st :: "matref option \<Rightarrow> matref option \<Rightarrow> matref option st" where
  "mul_st m n =
     bindS (load m) (\<lambda>a. bindS (load n) (\<lambda>b.
     bindS (NewDense_st (int (Rows a)) (int (Cols b)) None) (\<lambda>res.
     bindS (load res) (\<lambda>z. bindS (liftE (MulElem z a b)) (\<lambda>v.
     bindS (write_dense res v) (\<lambda>u. returnS res))))))"

definition fun_mat_st :: "(int \<Rightarrow> int \<Rightarrow> real \<Rightarrow> real) \<Rightarrow> matref option \<Rightarrow> matref option st" where
  "fun_mat_st fn m =
     bindS (load m) (\<lambda>a.
     bindS (NewDense_st (int (Rows a)) (int (Cols a)) None) (\<lambda>res.
     bindS (load res) (\<lambda>z. bindS (liftE (Apply z fn a)) (\<lambda>v.
     bindS (write_dense res v) (\<lambda>u. returnS res)))))"

definition scl_st :: "real \<Rightarrow> matref option \<Rightarrow> matref option st" where
  "scl_st f m =
     bindS (load m) (\<lambda>a.
     bindS (NewDense_st (int (Rows a)) (int (Cols a)) None) (\<lambda>res.
     bindS (load res) (\<lambda>z. bindS (liftE (Scale z f a)) (\<lambda>v.
     bindS (write_dense res v) (\<lambda>u. returnS res)))))"

definition add_st :: "matref option \<Rightarrow> matref option \<Rightarrow> matref option st" where
  "add_st m n =
     bindS (load m) (\<lambda>a.
     bindS (NewDense_st (int (Rows a)) (int (Cols a)) None) (\<lambda>res.
     bindS (load n) (\<lambda>b.
     bindS (load res) (\<lambda>z. bindS (liftE (Add z a b)) (\<lambda>v.
     bindS (write_dense res v) (\<lambda>u. returnS res))))))"

definition sub_st :: "matref option \<Rightarrow> matref option \<Rightarrow> matref option st" where
  "sub_st m n =
     bindS (load m) (\<lambda>a.
     bindS (NewDense_st (int (Rows a)) (int (Cols a)) None) (\<lambda>res.
     bindS (load n) (\<lambda>b.
     bindS (load res) (\<lambda>z. bindS (liftE (Sub z a b)) (\<lambda>v.
     bindS (write_dense res v) (\<lambda>u. returnS res))))))"

text \<open>The expression \<open>n.layers[k]\<close> and the assignment to it.\<close>

definition read_layer :: "Network_obj \<Rightarrow> int \<Rightarrow> layer_obj st" where
  "read_layer n k s =
     (if obj_layers n < length (layer_arrays s)
      then (idx (layer_arrays s ! obj_layers n) k, s)
      else (Inl NilDereference, s))"

definition write_layer :: "Network_obj \<Rightarrow> int \<Rightarrow> layer_obj \<Rightarrow> unit st" where
  "write_layer n k l s =
     (if obj_layers n < length (layer_arrays s) \<and> 0 \<le> k \<and>
         k < int (length (layer_arrays s ! obj_layers n))
      then (Inr (), s\<lparr>layer_arrays :=
              (layer_arrays s)[obj_layers n := (layer_arrays s ! obj_layers n)[nat k := l]]\<rparr>)
      else (Inl IndexOutOfRange, s))"

definition Calc_body_st ::
  "Network_obj \<Rightarrow> matref option \<Rightarrow> matref option \<Rightarrow> nat \<Rightarrow> matref option st" where
  "Calc_body_st n inputs activation k =
     (if k = 0 then
        bindS (read_layer n (int k)) (\<lambda>l.
        bindS (dot_st (weights_ref l) inputs) (\<lambda>wx.
        bindS (add_st wx (biases_ref l)) (\<lambda>z.
        bindS (fun_mat_st sigmoid z) (\<lambda>a. returnS a))))
      else
        bindS (read_layer n (int k)) (\<lambda>l.
        bindS (dot_st (weights_ref l) activation) (\<lambda>wx.
        bindS (add_st wx (biases_ref l)) (\<lambda>z.
        bindS (fun_mat_st sigmoid z) (\<lambda>a. returnS a)))))"

definition Calc_st :: "Network_obj \<Rightarrow> real list \<Rightarrow> real list st" where
  "Calc_st n data =
     (if int (length data) \<noteq> obj_i n then liftE (Inl errInvalidDataSize)
      else
        bindS (NewDense_st (obj_i n) 1 (Some data)) (\<lambda>inputs.
        bindS (foldSt (Calc_body_st n inputs) [0..<nat (obj_h n)] None) (\<lambda>activation.
        bindS (load activation) (\<lambda>a.
        returnS (map (\<lambda>r. At a r 0) [0..<Rows a])))))"

definition forward_body_st ::
  "Network_obj \<Rightarrow> matref option \<Rightarrow> matref option list \<times> matref option list \<Rightarrow> nat \<Rightarrow>
     (matref option list \<times> matref option list) st" where
  "forward_body_st n input s k =
     (case s of (zs, activations) \<Rightarrow>
        if k = 0 then
          bindS (read_layer n (int k)) (\<lambda>l.
          bindS (dot_st (weights_ref l) input) (\<lambda>wx.
          bindS (add_st wx (biases_ref l)) (\<lambda>z.
          bindS (fun_mat_st sigmoid z) (\<lambda>a. returnS (zs @ [z], activations @ [a])))))
        else
          bindS (read_layer n (int k)) (\<lambda>l.
          bindS (liftE (idx activations (int k - 1))) (\<lambda>prev.
          bindS (dot_st (weights_ref l) prev) (\<lambda>wx.
          bindS (add_st wx (biases_ref l)) (\<lambda>z.
          bindS (fun_mat_st sigmoid z) (\<lambda>a. returnS (zs @ [z], activations @ [a])))))))"

definition backward_body_st ::
  "Network_obj \<Rightarrow> matref option \<Rightarrow> matref option list \<Rightarrow> matref option list \<Rightarrow>
     matref option \<Rightarrow> nat \<Rightarrow> matref option st" where
  "backward_body_st n input zs activations layerErrors k =
     bindS (if int k \<noteq> obj_h n - 1
            then bindS (read_layer n (int k + 1)) (\<lambda>l1.
                 bindS (T_st (weights_ref l1)) (\<lambda>wT. dot_st wT layerErrors))
            else returnS layerErrors) (\<lambda>le.
     bindS (read_layer n (int k)) (\<lambda>l.
     bindS (liftE (idx zs (int k))) (\<lambda>z.
     bindS (fun_mat_st dSigmoid z) (\<lambda>d.
     bindS (mul_st le d) (\<lambda>g.
     bindS (scl_st (2 * obj_learnRate n) g) (\<lambda>sg.
     bindS (add_st (biases_ref l) sg) (\<lambda>b.
     bindS (write_layer n (int k) (l\<lparr>biases_ref := b\<rparr>)) (\<lambda>u.
     bindS (read_layer n (int k)) (\<lambda>l'.
     bindS (liftE (idx zs (int k))) (\<lambda>z'.
     bindS (fun_mat_st dSigmoid z') (\<lambda>d'.
     bindS (mul_st le d') (\<lambda>g'.
     bindS (if k = 0 then T_st input
            else bindS (liftE (idx activations (int k - 1))) T_st) (\<lambda>prevT.
     bindS (dot_st g' prevT) (\<lambda>gw.
     bindS (scl_st (obj_learnRate n) gw) (\<lambda>sgw.
     bindS (add_st (weights_ref l') sgw) (\<lambda>w.
     bindS (write_layer n (int k) (l'\<lparr>weights_ref := w\<rparr>)) (\<lambda>u'.
     returnS le)))))))))))))))))"

definition backpropagate_st :: "Network_obj \<Rightarrow> real list \<Rightarrow> real list \<Rightarrow> unit st" where
  "backpropagate_st n inputData expectedData =
     (if int (length inputData) \<noteq> obj_i n \<or> int (length expectedData) \<noteq> obj_o n
      then liftE (Inl errInvalidDataSize)
      else
        bindS (NewDense_st (obj_i n) 1 (Some inputData)) (\<lambda>input.
        bindS (NewDense_st (obj_o n) 1 (Some expectedData)) (\<lambda>expected.
        bindS (liftE (if obj_h n < 0 then Inl NegativeLen else Inr ())) (\<lambda>u.
        bindS (foldSt (forward_body_st n input) [0..<nat (obj_h n)] ([], [])) (\<lambda>(zs, activations).
        bindS (liftE (idx activations (obj_h n - 1))) (\<lambda>last_a.
        bindS (sub_st expected last_a) (\<lambda>layerErrors.
        bindS (foldSt (backward_body_st n input zs activations) (rev [0..<nat (obj_h n)])
                 layerErrors) (\<lambda>le.
        returnS ()))))))))"

definition Train_example_st ::
  "Network_obj \<Rightarrow> real list list \<Rightarrow> real list list \<Rightarrow> real \<Rightarrow> nat \<Rightarrow> real st" where
  "Train_example_st n inputs expected avgCost k =
     bindS (liftE (idx inputs (int k))) (\<lambda>x.
     bindS (liftE (idx expected (int k))) (\<lambda>y.
     bindS (backpropagate_st n x y) (\<lambda>u.
     bindS (Calc_st n x) (\<lambda>got.
     bindS (liftE (totalCost y got)) (\<lambda>c.
     returnS (avgCost + c))))))"

definition Train_epoch_st ::
  "Network_obj \<Rightarrow> real list list \<Rightarrow> real list list \<Rightarrow> real list \<Rightarrow> nat \<Rightarrow> real list st" where
  "Train_epoch_st n inputs expected printed epoch =
     bindS (foldSt (Train_example_st n inputs expected) [0..<length inputs] 0) (\<lambda>avgCost.
     returnS (printed @ [avgCost / real (length inputs)]))"

definition Train_st ::
  "Network_obj \<Rightarrow> real list list \<Rightarrow> real list list \<Rightarrow> int \<Rightarrow> real list st" where
  "Train_st n inputs expected epochs =
     (if length inputs \<noteq> length expected then liftE (Inl errInvalidDataSize)
      else
        bindS (foldSt (Train_epoch_st n inputs expected) [0..<nat epochs] []) (\<lambda>printed.
        if epochs = 0 then liftE (Inl IntegerDivideByZero) else returnS printed))"

text \<open>
  \<open>Perturb\<close> draws from the generator: the state of its loop is the stream. \<open>Dims\<close> of a
  nil matrix panics.
\<close>

definition Perturb_body_st :: "Network_obj \<Rightarrow> real \<Rightarrow> real stream \<Rightarrow> nat \<Rightarrow> real stream st" where
  "Perturb_body_st n strength rnd k =
     bindS (read_layer n (int k)) (\<lambda>l.
     bindS (load (weights_ref l)) (\<lambda>wm.
     bindS (read_layer n (int k)) (\<lambda>lb.
     bindS (load (biases_ref lb)) (\<lambda>bm.
     bindS (read_layer n (int k)) (\<lambda>l1.
     bindS (liftE (randomArray (int (Rows wm) * int (Cols wm))
                     (- 1 * strength) (1 * strength) rnd)) (\<lambda>(wd, rnd1).
     bindS (NewDense_st (int (Rows wm)) (int (Cols wm)) (Some wd)) (\<lambda>wn.
     bindS (add_st (weights_ref l1) wn) (\<lambda>w.
     bindS (write_layer n (int k) (l1\<lparr>weights_ref := w\<rparr>)) (\<lambda>u.
     bindS (read_layer n (int k)) (\<lambda>l2.
     bindS (liftE (randomArray (int (Rows bm) * int (Cols bm))
                     (- 1 * strength) (1 * strength) rnd1)) (\<lambda>(bd, rnd2).
     bindS (NewDense_st (int (Rows bm)) (int (Cols bm)) (Some bd)) (\<lambda>bn.
     bindS (add_st (biases_ref l2) bn) (\<lambda>b.
     bindS (write_layer n (int k) (l2\<lparr>biases_ref := b\<rparr>)) (\<lambda>u'.
     returnS rnd2))))))))))))))"

definition Perturb_st :: "Network_obj \<Rightarrow> real \<Rightarrow> real stream \<Rightarrow> real stream st" where
  "Perturb_st n strength rnd =
     foldSt (Perturb_body_st n strength) [0..<nat (obj_h n)] rnd"

text \<open>
  \<open>Copy\<close> makes a new array of \<open>len(n.layers)\<close> layers and copies the layers of \<open>n\<close> into
  it with the built-in \<open>copy\<close>, which copies the references. The list of hidden sizes is
  copied in the same way. \<open>copy_slice dst src\<close> is \<open>dst\<close> after \<open>copy(dst, src)\<close>.
\<close>

definition copy_slice :: "'a list \<Rightarrow> 'a list \<Rightarrow> 'a list" where
  "copy_slice dst src = take (length dst) src @ drop (length src) dst"

definition Copy_st :: "Network_obj \<Rightarrow> Network_obj st" where
  "Copy_st n s =
     (if obj_layers n < length (layer_arrays s) then
        (Inr \<lparr>obj_i = obj_i n, obj_o = obj_o n, obj_h = obj_h n,
              obj_hidden = copy_slice (replicate (length (obj_hidden n)) 0) (obj_hidden n),
              obj_layers = length (layer_arrays s),
              obj_learnRate = obj_learnRate n\<rparr>,
         s\<lparr>layer_arrays := layer_arrays s @
              [copy_slice
                 (replicate (length (layer_arrays s ! obj_layers n))
                    \<lparr>weights_ref = None, biases_ref = None\<rparr>)
                 (layer_arrays s ! obj_layers n)]\<rparr>)
      else (Inl NilDereference, s))"

text \<open>
  What a network object stands for in a store: the network whose layers hold the matrices
  that the references of its layer array point to. The references are valid when the array
  exists and each of them points to an object of the store.
\<close>

definition deref :: "store \<Rightarrow> matref option \<Rightarrow> Dense" where
  "deref s r =
     (case r of
        Some (Ref a) \<Rightarrow> dense s ! a
      | Some (TRef a) \<Rightarrow> T (dense s ! a)
      | None \<Rightarrow> \<lparr>Rows = 0, Cols = 0, Data = []\<rparr>)"

definition view :: "store \<Rightarrow> Network_obj \<Rightarrow> Network" where
  "view s n =
     \<lparr>net_i = obj_i n, net_o = obj_o n, net_h = obj_h n, hidden = obj_hidden n,
      layers = map (\<lambda>l. \<lparr>weights = deref s (weights_ref l), biases = deref s (biases_ref l)\<rparr>)
                 (layer_arrays s ! obj_layers n),
      learnRate = obj_learnRate n\<rparr>"

definition valid_ref :: "store \<Rightarrow> matref option \<Rightarrow> bool" where
  "valid_ref s r = (case r of Some (Ref a) \<Rightarrow> a < length (dense s) | _ \<Rightarrow> False)"

definition valid_net :: "store \<Rightarrow> Network_obj \<Rightarrow> bool" where
  "valid_net s n =
     (obj_layers n < length (layer_arrays s) \<and>
      list_all (\<lambda>l. valid_ref s (weights_ref l) \<and> valid_ref s (biases_ref l))
        (layer_arrays s ! obj_layers n))"

subsection \<open>Predicates used in the statements\<close>

definition within_open :: "real \<Rightarrow> real \<Rightarrow> real list \<Rightarrow> bool" where
  "within_open lo hi xs = list_all (\<lambda>x. lo < x \<and> x < hi) xs"

definition within_half_open :: "real \<Rightarrow> real \<Rightarrow> real list \<Rightarrow> bool" where
  "within_half_open lo hi xs = list_all (\<lambda>x. lo \<le> x \<and> x < hi) xs"

text \<open>Every draw of the generator lies in \<open>[0, 1)\<close>, as \<open>rand.Float64()\<close> promises.\<close>

definition unit_draws :: "real stream \<Rightarrow> bool" where
  "unit_draws rnd = (\<forall>x\<in>sset rnd. 0 \<le> x \<and> x < 1)"

subsection \<open>Well-formed matrices and networks\<close>

text \<open>
  A \<open>Dense\<close> value as \<open>NewDense\<close> builds it: positive dimensions and one entry per position.
\<close>

definition wf_dense :: "Dense \<Rightarrow> bool" where
  "wf_dense m = (0 < Rows m \<and> 0 < Cols m \<and> length (Data m) = Rows m * Cols m)"

text \<open>The column vector \<open>mat.NewDense(len(xs), 1, xs)\<close> and the all-zero matrix.\<close>

definition column :: "real list \<Rightarrow> Dense" where
  "column xs = \<lparr>Rows = length xs, Cols = 1, Data = xs\<rparr>"

definition zeros :: "nat \<Rightarrow> nat \<Rightarrow> Dense" where
  "zeros r c = \<lparr>Rows = r, Cols = c, Data = replicate (r * c) 0\<rparr>"

text \<open>
  The invariant of section 3 of the specification, for layer \<open>k\<close>: the weight matrix is
  \<open>layerSize \<times> inputSize\<close> and the bias matrix \<open>layerSize \<times> 1\<close>, the first layer takes
  \<open>inputSize\<close> inputs, the last has \<open>outputSize\<close> rows, and between them the sizes are the
  hidden sizes. The list of hidden sizes may be empty. The field \<open>h\<close> of the Go struct is
  the number of layers.
\<close>

definition layer_ok :: "'f Network_of \<Rightarrow> nat \<Rightarrow> bool" where
  "layer_ok n k =
     (let l = layers n ! k in
        wf_dense (weights l) \<and> wf_dense (biases l) \<and>
        Rows (biases l) = Rows (weights l) \<and> Cols (biases l) = 1 \<and>
        int (Cols (weights l)) = (if k = 0 then net_i n else hidden n ! (k - 1)) \<and>
        int (Rows (weights l)) = (if k = length (hidden n) then net_o n else hidden n ! k))"

definition topology_ok :: "'f Network_of \<Rightarrow> bool" where
  "topology_ok n =
     (net_h n = int (length (layers n)) \<and> length (layers n) = length (hidden n) + 1 \<and>
      list_all (layer_ok n) [0..<length (layers n)])"

subsection \<open>The specification's formulas\<close>

text \<open>
  Section 4.3 and 4.4 in the specification's words: the pre-activation
  \<open>z_i = weights_i \<cdot> a_{i-1} + biases_i\<close> and the activation \<open>a_i = sigmoid(z_i)\<close>, with
  \<open>a_{-1}\<close> the input. \<open>spec_activation ls x k\<close> is the activation that enters layer \<open>k\<close>,
  that is \<open>a_{k-1}\<close>, and \<open>spec_z ls x k\<close> is \<open>z_k\<close>.
\<close>

definition z_of :: "layer \<Rightarrow> Dense \<Rightarrow> Dense" where
  "z_of l x = add_m (matmul (weights l) x) (biases l)"

definition a_of :: "layer \<Rightarrow> Dense \<Rightarrow> Dense" where
  "a_of l x = apply_m sigmoid (z_of l x)"

primrec spec_activation :: "layer list \<Rightarrow> Dense \<Rightarrow> nat \<Rightarrow> Dense" where
  "spec_activation ls x 0 = x"
| "spec_activation ls x (Suc k) = a_of (ls ! k) (spec_activation ls x k)"

definition spec_z :: "layer list \<Rightarrow> Dense \<Rightarrow> nat \<Rightarrow> Dense" where
  "spec_z ls x k = z_of (ls ! k) (spec_activation ls x k)"

text \<open>
  \<open>gradTerm = hadamard(delta, dSigmoid(z_i))\<close>, and the layer after
  \<open>biases_i += learningRate * 2 * gradTerm\<close> and
  \<open>weights_i += learningRate * matmul(gradTerm, transpose(a_{i-1}))\<close>.
\<close>

definition gradTerm :: "Dense \<Rightarrow> Dense \<Rightarrow> Dense" where
  "gradTerm delta z = hadamard delta (apply_m dSigmoid z)"

definition spec_update :: "real \<Rightarrow> layer \<Rightarrow> Dense \<Rightarrow> Dense \<Rightarrow> Dense \<Rightarrow> layer" where
  "spec_update lr l delta z a_prev =
     \<lparr>weights = add_m (weights l) (scale_m lr (matmul (gradTerm delta z) (transpose_m a_prev))),
      biases = add_m (biases l) (scale_m (lr * 2) (gradTerm delta z))\<rparr>"

subsection \<open>Notions used in the proofs\<close>

text \<open>
  The dimensions along a list of layers fit: each weight matrix has as many columns as the
  layer before it has rows (\<open>rin\<close> for the first), each bias matrix is a column of the
  same height.
\<close>

definition chain_ok :: "nat \<Rightarrow> layer list \<Rightarrow> bool" where
  "chain_ok rin ls =
     (\<forall>k<length ls.
        0 < Rows (weights (ls ! k)) \<and> 0 < Cols (weights (ls ! k)) \<and>
        Dims (biases (ls ! k)) = (Rows (weights (ls ! k)), 1) \<and>
        Cols (weights (ls ! k)) = (if k = 0 then rin else Rows (weights (ls ! (k - 1)))))"

definition dims_like :: "layer list \<Rightarrow> layer list \<Rightarrow> bool" where
  "dims_like ls' ls =
     (length ls' = length ls \<and>
      (\<forall>j<length ls. Dims (weights (ls' ! j)) = Dims (weights (ls ! j)) \<and>
                      Dims (biases (ls' ! j)) = Dims (biases (ls ! j))))"

text \<open>What the second loop of \<open>backpropagate\<close> needs from the first.\<close>

definition bp_ready :: "Network \<Rightarrow> Dense \<Rightarrow> Dense list \<Rightarrow> Dense list \<Rightarrow> Dense \<Rightarrow> bool" where
  "bp_ready n input zs acts le =
     (net_h n = int (length (layers n)) \<and> 0 < length (layers n) \<and>
      chain_ok (Rows input) (layers n) \<and> Cols input = 1 \<and>
      length zs = length (layers n) \<and> length acts = length (layers n) \<and>
      (\<forall>k<length (layers n).
          Dims (zs ! k) = (Rows (weights (layers n ! k)), 1) \<and>
          Dims (acts ! k) = (Rows (weights (layers n ! k)), 1)) \<and>
      Dims le = (Rows (weights (layers n ! (length (layers n) - 1))), 1))"

text \<open>The layer array and the variable \<open>layerErrors\<close> after the iteration for layer \<open>k\<close>.\<close>

definition bp_layers ::
  "Network \<Rightarrow> Dense \<Rightarrow> Dense list \<Rightarrow> Dense list \<Rightarrow> Dense \<Rightarrow> nat \<Rightarrow> layer list" where
  "bp_layers n input zs acts le k = fst (snd (backward_run n input zs acts le k))"

definition bp_delta ::
  "Network \<Rightarrow> Dense \<Rightarrow> Dense list \<Rightarrow> Dense list \<Rightarrow> Dense \<Rightarrow> nat \<Rightarrow> Dense" where
  "bp_delta n input zs acts le k = snd (snd (backward_run n input zs acts le k))"

subsection \<open>The scenario of section 8\<close>

text \<open>
  The zero-initialised network with two inputs, one hidden layer of two neurons and one
  output, learning rate \<open>0.1\<close>; the same network after one call of \<open>backpropagate\<close> on the
  example \<open>[1, 0] \<mapsto> [1]\<close>; and the output of the latter on \<open>[1, 0]\<close>.
\<close>

definition net221 :: Network where
  "net221 = \<lparr>net_i = 2, net_o = 1, net_h = 2, hidden = [2],
     layers = [\<lparr>weights = zeros 2 2, biases = zeros 2 1\<rparr>,
               \<lparr>weights = zeros 1 2, biases = zeros 1 1\<rparr>],
     learnRate = 1/10\<rparr>"

definition net221_trained :: Network where
  "net221_trained = \<lparr>net_i = 2, net_o = 1, net_h = 2, hidden = [2],
     layers = [\<lparr>weights = \<lparr>Rows = 2, Cols = 2, Data = [1/12800, 0, 1/12800, 0]\<rparr>,
                biases = \<lparr>Rows = 2, Cols = 1, Data = [1/6400, 1/6400]\<rparr>\<rparr>,
               \<lparr>weights = \<lparr>Rows = 1, Cols = 2, Data = [1/160, 1/160]\<rparr>,
                biases = \<lparr>Rows = 1, Cols = 1, Data = [1/40]\<rparr>\<rparr>],
     learnRate = 1/10\<rparr>"

definition out221 :: real where
  "out221 = sigmoid 0 0 (sigmoid 0 0 (3/12800) / 80 + 1/40)"

subsection \<open>Notions used in the proofs about the store\<close>

text \<open>
  \<open>grows A s s'\<close>: from \<open>s\<close> to \<open>s'\<close> objects have only been added, no \<open>Dense\<close> object of \<open>s\<close>
  has changed, and no layer array of \<open>s\<close> outside \<open>A\<close> has changed. A computation preserves
  the store outside \<open>A\<close> when every run of it, panicking or not, is such a step.
\<close>

definition grows :: "addr set \<Rightarrow> store \<Rightarrow> store \<Rightarrow> bool" where
  "grows A s s' =
     (length (dense s) \<le> length (dense s') \<and>
      (\<forall>a<length (dense s). dense s' ! a = dense s ! a) \<and>
      length (layer_arrays s) \<le> length (layer_arrays s') \<and>
      (\<forall>b<length (layer_arrays s). b \<notin> A \<longrightarrow> layer_arrays s' ! b = layer_arrays s ! b))"

definition preserves :: "addr set \<Rightarrow> 'a st \<Rightarrow> bool" where
  "preserves A m = (\<forall>s r s'. m s = (r, s') \<longrightarrow> grows A s s')"

text \<open>A reference that can be read: a pointer, or a transposed view, to an object of the store.\<close>

definition usable :: "store \<Rightarrow> matref option \<Rightarrow> bool" where
  "usable s r =
     (case r of None \<Rightarrow> False | Some (Ref a) \<Rightarrow> a < length (dense s)
      | Some (TRef a) \<Rightarrow> a < length (dense s))"

definition act_rel :: "store \<Rightarrow> matref option \<Rightarrow> Dense option \<Rightarrow> bool" where
  "act_rel s r a = ((r = None \<and> a = None) \<or> (usable s r \<and> a = Some (deref s r)))"

text \<open>The network of the scenario as an object in a store.\<close>

definition store221 :: store where
  "store221 = \<lparr>dense = [zeros 2 2, zeros 2 1, zeros 1 2, zeros 1 1],
     layer_arrays = [[\<lparr>weights_ref = Some (Ref 0), biases_ref = Some (Ref 1)\<rparr>,
                      \<lparr>weights_ref = Some (Ref 2), biases_ref = Some (Ref 3)\<rparr>]]\<rparr>"

definition obj221 :: Network_obj where
  "obj221 = \<lparr>obj_i = 2, obj_o = 1, obj_h = 2, obj_hidden = [2], obj_layers = 0,
              obj_learnRate = 1/10\<rparr>"

subsection \<open>Notions used in the statements and proofs about persistence\<close>

text \<open>
  What \<open>NewNetwork\<close> builds with \<open>random = false\<close> from sizes that are all positive and at
  least one hidden size: layer \<open>k\<close> is all zero, with as many rows as the size of layer \<open>k\<close>
  and as many columns as the size of the layer before it.
\<close>

definition zero_layer :: "int \<Rightarrow> int \<Rightarrow> int list \<Rightarrow> nat \<Rightarrow> layer" where
  "zero_layer inputs outputs hid k =
     \<lparr>weights = zeros (nat (if k = length hid then outputs else hid ! k))
                      (nat (if k = 0 then inputs else hid ! (k - 1))),
      biases = zeros (nat (if k = length hid then outputs else hid ! k)) 1\<rparr>"

definition zero_network :: "int \<Rightarrow> int \<Rightarrow> int list \<Rightarrow> 'f \<Rightarrow> 'f Network_of" where
  "zero_network inputs outputs hid learn =
     \<lparr>net_i = inputs, net_o = outputs, net_h = int (length hid + 1), hidden = hid,
      layers = map (zero_layer inputs outputs hid) [0..<length hid + 1], learnRate = learn\<rparr>"

definition sizes_ok :: "int \<Rightarrow> int \<Rightarrow> int list \<Rightarrow> bool" where
  "sizes_ok inputs outputs hid =
     (hid \<noteq> [] \<and> 0 < inputs \<and> 0 < outputs \<and> list_all (\<lambda>x. 0 < x) hid)"

text \<open>Reading a decimal numeral, and the blob entries that \<open>Save\<close> writes for the first \<open>j\<close> layers.\<close>

definition read_nat :: "string \<Rightarrow> nat" where
  "read_nat s = foldl (\<lambda>a c. 10 * a + (of_char c - 48)) 0 s"

definition blobs :: "layer list \<Rightarrow> nat \<Rightarrow> archive" where
  "blobs ls j =
     concat (map (\<lambda>k. [(wname k, Binary (weights (ls ! k))), (bname k, Binary (biases (ls ! k)))])
       [0..<j])"

text \<open>The network \<open>n\<close> with the learning rate \<open>r\<close>, of whatever type.\<close>

definition rate_as :: "'a Network_of \<Rightarrow> 'b \<Rightarrow> 'b Network_of" where
  "rate_as n r =
     \<lparr>net_i = net_i n, net_o = net_o n, net_h = net_h n, hidden = hidden n, layers = layers n,
      learnRate = r\<rparr>"

text \<open>
  An empty file system; the metadata of the network of the
  scenario; an archive with that metadata whose first weight blob is a 3-by-5 matrix, one
  that lacks the last bias blob, and a file system that holds them and an empty archive;
  the network with the 3-by-5 matrix in its first layer.
\<close>

definition fs_empty :: fsys where
  "fs_empty = \<lparr>files = Map.empty, cannot_create = {}\<rparr>"

definition meta221 :: NetworkOptions where
  "meta221 = \<lparr>opt_I = 2, opt_O = 1, opt_H = [2], opt_Learn = 1/10,
     opt_WPaths = [''0w.bin'', ''1w.bin''], opt_BPaths = [''0b.bin'', ''1b.bin'']\<rparr>"

definition ar_bad :: archive where
  "ar_bad = [(''meta.json'', JSON meta221),
             (''0w.bin'', Binary (zeros 3 5)), (''0b.bin'', Binary (zeros 2 1)),
             (''1w.bin'', Binary (zeros 1 2)), (''1b.bin'', Binary (zeros 1 1))]"

definition ar_short :: archive where
  "ar_short = [(''meta.json'', JSON meta221),
               (''0w.bin'', Binary (zeros 2 2)), (''0b.bin'', Binary (zeros 2 1)),
               (''1w.bin'', Binary (zeros 1 2))]"

definition fs_bad :: fsys where
  "fs_bad = \<lparr>files = [''bad.zip'' \<mapsto> ZipFile ar_bad, ''short.zip'' \<mapsto> ZipFile ar_short,
                       ''empty.zip'' \<mapsto> ZipFile []],
             cannot_create = {}\<rparr>"

definition net_bad :: Network where
  "net_bad = \<lparr>net_i = 2, net_o = 1, net_h = 2, hidden = [2],
     layers = [\<lparr>weights = zeros 3 5, biases = zeros 2 1\<rparr>,
               \<lparr>weights = zeros 1 2, biases = zeros 1 1\<rparr>],
     learnRate = 1/10\<rparr>"

subsection \<open>Notions used in the statements and proofs about zero-initialised networks\<close>

text \<open>
  Every entry of every matrix of the network is zero, as after \<open>NewNetwork\<close> with
  \<open>random = false\<close>. The error term of the last layer, the error term of layer \<open>k\<close> and the
  layers at the end of a call of \<open>backpropagate\<close>, written with the values of the forward
  pass.
\<close>

definition all_zero :: "Network \<Rightarrow> bool" where
  "all_zero n =
     list_all (\<lambda>l. list_all (\<lambda>v. v = 0) (Data (weights l)) \<and>
                    list_all (\<lambda>v. v = 0) (Data (biases l))) (layers n)"

definition out_error :: "Network \<Rightarrow> real list \<Rightarrow> real list \<Rightarrow> Dense" where
  "out_error n xs ys =
     sub_m (column ys) (spec_activation (layers n) (column xs) (length (layers n)))"

definition delta_of :: "Network \<Rightarrow> real list \<Rightarrow> real list \<Rightarrow> nat \<Rightarrow> Dense" where
  "delta_of n xs ys =
     bp_delta n (column xs) (map (spec_z (layers n) (column xs)) [0..<length (layers n)])
       (map (\<lambda>k. spec_activation (layers n) (column xs) (Suc k)) [0..<length (layers n)])
       (out_error n xs ys)"

definition final_layers :: "Network \<Rightarrow> real list \<Rightarrow> real list \<Rightarrow> layer list" where
  "final_layers n xs ys =
     bp_layers n (column xs) (map (spec_z (layers n) (column xs)) [0..<length (layers n)])
       (map (\<lambda>k. spec_activation (layers n) (column xs) (Suc k)) [0..<length (layers n)])
       (out_error n xs ys) 0"

subsection \<open>Forward evaluation with the activation function in \<open>float64\<close>\<close>

text \<open>
  Elsewhere a \<open>float64\<close> is a real number and the arithmetic exact. Whether an output of
  \<open>Calc\<close> can be \<open>0\<close> or \<open>1\<close> depends on the rounding in \<open>sigmoid\<close>, so here its body \<open>1 / (1
  + math.Exp(-v))\<close> is evaluated as Go does: every operation gives the \<open>float64\<close> nearest to
  the exact result, ties to the even neighbour. A finite \<open>float64\<close> has 53 significant bits
  and an exponent of at least \<open>-1022\<close>, so that the spacing around \<open>x\<close> is \<open>ulp64 x\<close>, also
  for the subnormal numbers. \<open>round64\<close> has no upper limit: in \<open>sigmoid\<close> only the result of
  \<open>math.Exp\<close> can exceed the largest \<open>float64\<close>, and \<open>Exp64\<close> tests that.
\<close>

definition exponent64 :: "real \<Rightarrow> int" where
  "exponent64 x = max \<lfloor>log 2 \<bar>x\<bar>\<rfloor> (- 1022)"

definition ulp64 :: "real \<Rightarrow> real" where
  "ulp64 x = 2 powr (of_int (exponent64 x) - 52)"

definition round_even :: "real \<Rightarrow> int" where
  "round_even q =
     (if q - of_int \<lfloor>q\<rfloor> < 1/2 then \<lfloor>q\<rfloor>
      else if 1/2 < q - of_int \<lfloor>q\<rfloor> then \<lfloor>q\<rfloor> + 1
      else if even \<lfloor>q\<rfloor> then \<lfloor>q\<rfloor> else \<lfloor>q\<rfloor> + 1)"

definition round64 :: "real \<Rightarrow> real" where
  "round64 x = (if x = 0 then 0 else of_int (round_even (x / ulp64 x)) * ulp64 x)"

text \<open>
  Modelled from the documentation of Go's package \<open>math\<close>, which is not part of the
  repository: \<open>Exp(x)\<close> is \<open>e**x\<close>, here the \<open>float64\<close> nearest to it, and very large values
  overflow to \<open>+Inf\<close>, which is \<open>None\<close>. In \<open>sigmoid\<close>, \<open>1 + (+Inf)\<close> is \<open>+Inf\<close> and \<open>1 / (+Inf)\<close>
  is \<open>0\<close>; the negation of \<open>v\<close> is exact.
\<close>

definition Exp64 :: "real \<Rightarrow> real option" where
  "Exp64 x = (if 2 powr 1024 \<le> round64 (exp x) then None else Some (round64 (exp x)))"

definition sigmoid64 :: "int \<Rightarrow> int \<Rightarrow> real \<Rightarrow> real" where
  "sigmoid64 r c v =
     (case Exp64 (- v) of
        None \<Rightarrow> 0
      | Some e \<Rightarrow> round64 (1 / round64 (1 + e)))"

text \<open>
  \<open>Calc\<close> with this activation function, on values and on the store. The matrix product and
  the sum of gonum stay exact.
\<close>

definition Calc64_body :: "Network \<Rightarrow> Dense \<Rightarrow> Dense option \<Rightarrow> nat \<Rightarrow> error + Dense option" where
  "Calc64_body n inputs activation k =
     (if k = 0 then
        bindE (idx (layers n) (int k)) (\<lambda>l.
        bindE (dot (weights l) inputs) (\<lambda>wx.
        bindE (add wx (biases l)) (\<lambda>z.
        bindE (fun_mat sigmoid64 z) (\<lambda>a. Inr (Some a)))))
      else
        bindE (idx (layers n) (int k)) (\<lambda>l.
        bindE (case activation of None \<Rightarrow> Inl NilDereference | Some act \<Rightarrow> Inr act) (\<lambda>act.
        bindE (dot (weights l) act) (\<lambda>wx.
        bindE (add wx (biases l)) (\<lambda>z.
        bindE (fun_mat sigmoid64 z) (\<lambda>a. Inr (Some a)))))))"

definition Calc64 :: "Network \<Rightarrow> real list \<Rightarrow> error + real list" where
  "Calc64 n data =
     (if int (length data) \<noteq> net_i n then Inl errInvalidDataSize
      else
        bindE (NewDense (net_i n) 1 (Some data)) (\<lambda>inputs.
        bindE (foldE (Calc64_body n inputs) [0..<nat (net_h n)] None) (\<lambda>activation.
        case activation of
          None \<Rightarrow> Inl NilDereference
        | Some a \<Rightarrow> Inr (map (\<lambda>r. At a r 0) [0..<Rows a]))))"

definition Calc64_body_st ::
  "Network_obj \<Rightarrow> matref option \<Rightarrow> matref option \<Rightarrow> nat \<Rightarrow> matref option st" where
  "Calc64_body_st n inputs activation k =
     (if k = 0 then
        bindS (read_layer n (int k)) (\<lambda>l.
        bindS (dot_st (weights_ref l) inputs) (\<lambda>wx.
        bindS (add_st wx (biases_ref l)) (\<lambda>z.
        bindS (fun_mat_st sigmoid64 z) (\<lambda>a. returnS a))))
      else
        bindS (read_layer n (int k)) (\<lambda>l.
        bindS (dot_st (weights_ref l) activation) (\<lambda>wx.
        bindS (add_st wx (biases_ref l)) (\<lambda>z.
        bindS (fun_mat_st sigmoid64 z) (\<lambda>a. returnS a)))))"

definition Calc64_st :: "Network_obj \<Rightarrow> real list \<Rightarrow> real list st" where
  "Calc64_st n data =
     (if int (length data) \<noteq> obj_i n then liftE (Inl errInvalidDataSize)
      else
        bindS (NewDense_st (obj_i n) 1 (Some data)) (\<lambda>inputs.
        bindS (foldSt (Calc64_body_st n inputs) [0..<nat (obj_h n)] None) (\<lambda>activation.
        bindS (load activation) (\<lambda>a.
        returnS (map (\<lambda>r. At a r 0) [0..<Rows a])))))"

text \<open>The range of the outputs, and the layer-by-layer formula with this activation function.\<close>

definition within_closed :: "real \<Rightarrow> real \<Rightarrow> real list \<Rightarrow> bool" where
  "within_closed lo hi xs = list_all (\<lambda>x. lo \<le> x \<and> x \<le> hi) xs"

definition a64_of :: "layer \<Rightarrow> Dense \<Rightarrow> Dense" where
  "a64_of l x = apply_m sigmoid64 (z_of l x)"

primrec spec_activation64 :: "layer list \<Rightarrow> Dense \<Rightarrow> nat \<Rightarrow> Dense" where
  "spec_activation64 ls x 0 = x"
| "spec_activation64 ls x (Suc k) = a64_of (ls ! k) (spec_activation64 ls x k)"

text \<open>
  The zero-initialised network with one input, one hidden neuron, one output and learning
  rate \<open>1000\<close>, and what one epoch on the example \<open>[1] \<mapsto> [1]\<close> makes of it.
\<close>

definition net111 :: Network where
  "net111 = \<lparr>net_i = 1, net_o = 1, net_h = 2, hidden = [1],
     layers = [\<lparr>weights = zeros 1 1, biases = zeros 1 1\<rparr>,
               \<lparr>weights = zeros 1 1, biases = zeros 1 1\<rparr>],
     learnRate = 1000\<rparr>"

definition net111_trained :: Network where
  "net111_trained = \<lparr>net_i = 1, net_o = 1, net_h = 2, hidden = [1],
     layers = [\<lparr>weights = \<lparr>Rows = 1, Cols = 1, Data = [15625/2]\<rparr>,
                biases = \<lparr>Rows = 1, Cols = 1, Data = [15625]\<rparr>\<rparr>,
               \<lparr>weights = \<lparr>Rows = 1, Cols = 1, Data = [125/2]\<rparr>,
                biases = \<lparr>Rows = 1, Cols = 1, Data = [250]\<rparr>\<rparr>],
     learnRate = 1000\<rparr>"

section \<open>Basic facts\<close>

lemma bindE_Inl [simp]: "bindE (Inl e) f = Inl e"
  by (simp add: bindE_def)

lemma bindE_Inr [simp]: "bindE (Inr x) f = f x"
  by (simp add: bindE_def)

section \<open>Random initialisation\<close>

lemma lerp_unit: "lerp x 0 1 (- 1) 1 = 2 * x - 1"
  by (simp add: lerp_def)

lemma sset_stake_sdrop: "set (stake k s) \<union> sset (sdrop k s) = sset s"
proof -
  have "sset (stake k s @- sdrop k s) = sset s" by (simp only: stake_sdrop)
  then show ?thesis by simp
qed

lemma unit_draws_sdrop: "unit_draws rnd \<Longrightarrow> unit_draws (sdrop k rnd)"
  unfolding unit_draws_def using sset_stake_sdrop[of k rnd] by blast

lemma randomArray_range:
  assumes "unit_draws rnd" and "randomArray sz (- 1) 1 rnd = Inr (xs, rnd')"
  shows "within_half_open (- 1) 1 xs \<and> unit_draws rnd'"
proof -
  from assms(2) have xs: "xs = map (\<lambda>x. lerp x 0 1 (- 1) 1) (stake (nat sz) rnd)"
    and r: "rnd' = sdrop (nat sz) rnd"
    by (auto simp: randomArray_def split: if_splits)
  have "set (stake (nat sz) rnd) \<subseteq> sset rnd"
    using sset_stake_sdrop[of "nat sz" rnd] by blast
  with assms(1) have "\<forall>x\<in>set (stake (nat sz) rnd). 0 \<le> x \<and> x < 1"
    unfolding unit_draws_def by blast
  then have "within_half_open (- 1) 1 xs"
    unfolding xs within_half_open_def by (auto simp: list_all_iff lerp_unit)
  with assms(1) r show ?thesis by (simp add: unit_draws_sdrop)
qed

lemma NewDense_Some_Data: "NewDense r c (Some d) = Inr m \<Longrightarrow> Data m = d"
  by (auto simp: NewDense_def split: if_splits)

text \<open>
  Claim C10, as amended. With the generator an arbitrary stream of draws in \<open>[0, 1)\<close>,
  every weight and every bias entry that \<open>newLayer\<close> produces with \<open>random = true\<close> lies in
  the half-open interval \<open>[-1, 1)\<close>: \<open>lerp\<close> maps a draw \<open>x\<close> to \<open>2 * x - 1\<close>, and the
  draw \<open>0\<close> gives the entry \<open>-1\<close>.
\<close>

theorem newLayer_random_half_open:
  assumes "unit_draws rnd" and "newLayer layerSize inputSize True rnd = Inr (l, rnd')"
  shows "within_half_open (- 1) 1 (Data (weights l)) \<and>
         within_half_open (- 1) 1 (Data (biases l))"
proof -
  from assms(2) obtain wd rnd1 bd rnd2 w b where
    1: "randomArray (layerSize * inputSize) (- 1) 1 rnd = Inr (wd, rnd1)" and
    2: "NewDense layerSize inputSize (Some wd) = Inr w" and
    3: "randomArray layerSize (- 1) 1 rnd1 = Inr (bd, rnd2)" and
    4: "NewDense layerSize 1 (Some bd) = Inr b" and
    5: "l = \<lparr>weights = w, biases = b\<rparr>"
    by (auto simp: newLayer_def bindE_def split: sum.splits prod.splits)
  from randomArray_range[OF assms(1) 1]
  have a: "within_half_open (- 1) 1 wd" "unit_draws rnd1" by simp_all
  from randomArray_range[OF a(2) 3] have b: "within_half_open (- 1) 1 bd" by simp
  show ?thesis
    using a(1) b 5 NewDense_Some_Data[OF 2] NewDense_Some_Data[OF 4] by simp
qed

theorem newLayer_random_half_open_witness:
  "unit_draws (sconst (1/2)) \<and>
   newLayer 2 1 True (sconst (1/2)) =
     Inr (\<lparr>weights = \<lparr>Rows = 2, Cols = 1, Data = [0, 0]\<rparr>,
           biases = \<lparr>Rows = 2, Cols = 1, Data = [0, 0]\<rparr>\<rparr>, sconst (1/2)) \<and>
   within_half_open (- 1) 1 [0, 0]"
proof -
  have u: "unit_draws (sconst (1/2))" by (simp add: unit_draws_def)
  have st: "stake 2 (sconst (1/2::real)) = [1/2, 1/2]"
    by (simp add: numeral_2_eq_2 upt_rec)
  have e: "newLayer 2 1 True (sconst (1/2)) =
     Inr (\<lparr>weights = \<lparr>Rows = 2, Cols = 1, Data = [0, 0]\<rparr>,
           biases = \<lparr>Rows = 2, Cols = 1, Data = [0, 0]\<rparr>\<rparr>, sconst (1/2))"
    by (simp add: newLayer_def randomArray_def NewDense_def lerp_def st del: stake_siterate)
  from newLayer_random_half_open[OF u e] show ?thesis using u e by simp
qed

text \<open>
  Claim C10, as stated, fails: when the generator draws \<open>0\<close>, the only weight and the only
  bias of a 1-by-1 layer are \<open>-1\<close>, which is not strictly inside \<open>(-1, 1)\<close>.
\<close>

theorem newLayer_random_reaches_minus_one:
  "unit_draws (sconst 0) \<and>
   newLayer 1 1 True (sconst 0) =
     Inr (\<lparr>weights = \<lparr>Rows = 1, Cols = 1, Data = [- 1]\<rparr>,
           biases = \<lparr>Rows = 1, Cols = 1, Data = [- 1]\<rparr>\<rparr>, sconst 0) \<and>
   \<not> within_open (- 1) 1 [- 1]"
  by (simp add: unit_draws_def within_open_def newLayer_def randomArray_def NewDense_def lerp_def)

section \<open>Construction\<close>

text \<open>
  Claim C8: with an empty list of hidden sizes \<open>NewNetwork\<close> should return a single-layer
  network. The code does not: the first iteration of its loop takes the branch \<open>i == 0\<close>
  and reads \<open>hidden[0]\<close>, which is out of range, whatever the other arguments are.
\<close>

theorem NewNetwork_no_hidden_panics:
  "NewNetwork inputs outputs [] learn random rnd = Inl IndexOutOfRange"
  by (simp add: NewNetwork_def NewNetwork_body_def idx_def)

section \<open>Matrices\<close>

lemma length_concat_const:
  "length (concat (map (\<lambda>a. map (g a) [0..<c]) xs)) = length xs * c"
  by (induction xs) simp_all

lemma tabulate_sel [simp]:
  "Rows (tabulate r c f) = r" "Cols (tabulate r c f) = c"
  "length (Data (tabulate r c f)) = r * c"
  by (simp_all add: tabulate_def length_concat_const)

lemma Dims_tabulate [simp]: "Dims (tabulate r c f) = (r, c)"
  by (simp add: Dims_def)

lemma concat_const_nth:
  "a < length xs \<Longrightarrow> b < c \<Longrightarrow>
     concat (map (\<lambda>a. map (g a) [0..<c]) xs) ! (a * c + b) = g (xs ! a) b"
proof (induction xs arbitrary: a)
  case Nil then show ?case by simp
next
  case (Cons x xs)
  show ?case
  proof (cases a)
    case 0 with Cons.prems show ?thesis by (simp add: nth_append)
  next
    case (Suc a')
    with Cons.prems have "a' < length xs" by simp
    from Cons.IH[OF this Cons.prems(2)] Suc show ?thesis
      by (simp add: nth_append add.assoc)
  qed
qed

lemma At_tabulate [simp]: "a < r \<Longrightarrow> b < c \<Longrightarrow> At (tabulate r c f) a b = f a b"
  using concat_const_nth[of a "[0..<r]" b c f]
  by (simp add: At_def tabulate_def)

lemma wf_dense_tabulate [simp]: "wf_dense (tabulate r c f) \<longleftrightarrow> 0 < r \<and> 0 < c"
  by (simp add: wf_dense_def)

lemma NewDense_None [simp]:
  "0 < r \<Longrightarrow> 0 < c \<Longrightarrow>
   NewDense (int r) (int c) None = Inr \<lparr>Rows = r, Cols = c, Data = replicate (r * c) 0\<rparr>"
  by (simp add: NewDense_def)

lemma add_ok: "0 < Rows a \<Longrightarrow> 0 < Cols a \<Longrightarrow> Dims b = Dims a \<Longrightarrow> add a b = Inr (add_m a b)"
  by (simp add: add_def Add_def Dims_def)

lemma sub_ok: "0 < Rows a \<Longrightarrow> 0 < Cols a \<Longrightarrow> Dims b = Dims a \<Longrightarrow> sub a b = Inr (sub_m a b)"
  by (simp add: sub_def Sub_def Dims_def)

lemma mul_ok: "0 < Rows a \<Longrightarrow> 0 < Cols a \<Longrightarrow> Dims b = Dims a \<Longrightarrow> mul a b = Inr (hadamard a b)"
  by (simp add: mul_def MulElem_def Dims_def)

lemma scl_ok: "0 < Rows a \<Longrightarrow> 0 < Cols a \<Longrightarrow> scl f a = Inr (scale_m f a)"
  by (simp add: scl_def Scale_def Dims_def)

lemma fun_mat_ok: "0 < Rows a \<Longrightarrow> 0 < Cols a \<Longrightarrow> fun_mat fn a = Inr (apply_m fn a)"
  by (simp add: fun_mat_def Apply_def Dims_def)

lemma dot_ok: "0 < Rows a \<Longrightarrow> 0 < Cols b \<Longrightarrow> Cols a = Rows b \<Longrightarrow> dot a b = Inr (matmul a b)"
  by (simp add: dot_def Product_def Dims_def)

lemma pure_sel [simp]:
  "Rows (add_m a b) = Rows a" "Cols (add_m a b) = Cols a"
  "Rows (sub_m a b) = Rows a" "Cols (sub_m a b) = Cols a"
  "Rows (hadamard a b) = Rows a" "Cols (hadamard a b) = Cols a"
  "Rows (scale_m f a) = Rows a" "Cols (scale_m f a) = Cols a"
  "Rows (apply_m fn a) = Rows a" "Cols (apply_m fn a) = Cols a"
  "Rows (matmul a b) = Rows a" "Cols (matmul a b) = Cols b"
  "Rows (transpose_m a) = Cols a" "Cols (transpose_m a) = Rows a"
  "Rows (T a) = Cols a" "Cols (T a) = Rows a"
  by (simp_all add: add_m_def sub_m_def hadamard_def scale_m_def apply_m_def matmul_def
        transpose_m_def T_def)

lemma foldE_append: "foldE f (xs @ ys) s = bindE (foldE f xs s) (foldE f ys)"
  by (induction xs arbitrary: s) (simp_all add: bindE_def split: sum.splits)

lemma foldS_append:
  "foldS f (xs @ ys) s =
     (case foldS f xs s of (Some e, s') \<Rightarrow> (Some e, s') | (None, s') \<Rightarrow> foldS f ys s')"
  by (induction xs arbitrary: s) (simp_all split: prod.splits option.splits)

section \<open>Forward evaluation\<close>

lemma topology_layer:
  "topology_ok n \<Longrightarrow> k < length (layers n) \<Longrightarrow> layer_ok n k"
  by (simp add: topology_ok_def list_all_iff)

lemma topology_chain: 
  assumes "topology_ok n" shows "chain_ok (nat (net_i n)) (layers n)"
  unfolding chain_ok_def
proof (intro allI impI)
  fix k assume k: "k < length (layers n)"
  from topology_layer[OF assms k] have lk: "layer_ok n k" .
  have len: "length (layers n) = length (hidden n) + 1" using assms by (simp add: topology_ok_def)
  show "0 < Rows (weights (layers n ! k)) \<and> 0 < Cols (weights (layers n ! k)) \<and>
        Dims (biases (layers n ! k)) = (Rows (weights (layers n ! k)), 1) \<and>
        Cols (weights (layers n ! k)) = (if k = 0 then nat (net_i n) else Rows (weights (layers n ! (k - 1))))"
  proof (cases k)
    case 0
    with lk show ?thesis by (auto simp: layer_ok_def Let_def wf_dense_def Dims_def)
  next
    case (Suc j)
    with k have j: "j < length (layers n)" by simp
    from topology_layer[OF assms j] have lj: "layer_ok n j" .
    from Suc k len have "j \<noteq> length (hidden n)" by simp
    with lj have "int (Rows (weights (layers n ! j))) = hidden n ! j"
      by (simp add: layer_ok_def Let_def)
    moreover from lk Suc have "int (Cols (weights (layers n ! k))) = hidden n ! j"
      by (simp add: layer_ok_def Let_def)
    ultimately have "Cols (weights (layers n ! k)) = Rows (weights (layers n ! j))" by simp
    with lk Suc show ?thesis by (auto simp: layer_ok_def Let_def wf_dense_def Dims_def)
  qed
qed

lemma spec_activation_dims:
  assumes "chain_ok rin ls" "Rows x = rin" "Cols x = 1" "k \<le> length ls"
  shows "Rows (spec_activation ls x k) = (if k = 0 then rin else Rows (weights (ls ! (k - 1))))
         \<and> Cols (spec_activation ls x k) = 1"
  using assms(4)
proof (induction k)
  case 0 with assms show ?case by simp
next
  case (Suc k)
  then show ?case by (simp add: a_of_def z_of_def)
qed

lemma layer_step_ok:
  assumes "chain_ok rin ls" "k < length ls" "Rows a = (if k = 0 then rin else Rows (weights (ls ! (k - 1))))" "Cols a = 1"
  shows "bindE (dot (weights (ls ! k)) a) (\<lambda>wx. bindE (add wx (biases (ls ! k))) (\<lambda>z. bindE (fun_mat fn z) (\<lambda>a. F z a)))
      = F (z_of (ls ! k) a) (apply_m fn (z_of (ls ! k) a))"
proof -
  from assms(1,2) have c: "0 < Rows (weights (ls ! k))" "0 < Cols (weights (ls ! k))"
    "Dims (biases (ls ! k)) = (Rows (weights (ls ! k)), 1)"
    "Cols (weights (ls ! k)) = (if k = 0 then rin else Rows (weights (ls ! (k - 1))))"
    by (auto simp: chain_ok_def)
  have 1: "dot (weights (ls ! k)) a = Inr (matmul (weights (ls ! k)) a)"
    using c assms(3,4) by (intro dot_ok) simp_all
  have 2: "add (matmul (weights (ls ! k)) a) (biases (ls ! k)) = Inr (z_of (ls ! k) a)"
    unfolding z_of_def using c assms(4) by (intro add_ok) (simp_all add: Dims_def)
  have 3: "fun_mat fn (z_of (ls ! k) a) = Inr (apply_m fn (z_of (ls ! k) a))"
    using c assms(4) by (intro fun_mat_ok) (simp_all add: z_of_def)
  show ?thesis by (simp add: 1 2 3)
qed

lemma idx_nat [simp]: "k < length xs \<Longrightarrow> idx xs (int k) = Inr (xs ! k)"
  by (simp add: idx_def)

lemma Calc_loop:
  assumes "chain_ok rin (layers n)" "Rows x = rin" "Cols x = 1" "j \<le> length (layers n)"
  shows "foldE (Calc_body n x) [0..<j] None =
           Inr (if j = 0 then None else Some (spec_activation (layers n) x j))"
  using assms(4)
proof (induction j)
  case 0 show ?case by simp
next
  case (Suc j)
  then have j: "j < length (layers n)" and IH: "foldE (Calc_body n x) [0..<j] None =
           Inr (if j = 0 then None else Some (spec_activation (layers n) x j))" by simp_all
  from spec_activation_dims[OF assms(1-3), of j] j
  have d: "Rows (spec_activation (layers n) x j) = (if j = 0 then rin else Rows (weights (layers n ! (j - 1))))"
      "Cols (spec_activation (layers n) x j) = 1" by simp_all
  have step: "Calc_body n x (if j = 0 then None else Some (spec_activation (layers n) x j)) j
      = Inr (Some (spec_activation (layers n) x (Suc j)))"
  proof (cases "j = 0")
    case True
    with layer_step_ok[OF assms(1) j d, of sigmoid "\<lambda>z a. Inr (Some a)"] j
    show ?thesis using idx_nat[of 0 "layers n"] by (simp add: Calc_body_def a_of_def)
  next
    case False
    with layer_step_ok[OF assms(1) j d, of sigmoid "\<lambda>z a. Inr (Some a)"] j
    show ?thesis by (simp add: Calc_body_def a_of_def)
  qed
  show ?case by (simp add: foldE_append IH step)
qed

lemma sigmoid_range: "0 < sigmoid r c v \<and> sigmoid r c v < 1"
proof -
  have "0 < exp (- v)" by simp
  then have a: "1 < 1 + exp (- v)" by simp
  then have b: "0 < 1 + exp (- v)" by linarith
  from a b have "1 / (1 + exp (- v)) < 1" by (simp add: divide_less_eq)
  moreover from b have "0 < 1 / (1 + exp (- v))" by simp
  ultimately show ?thesis unfolding sigmoid_def by simp
qed

lemma Data_tabulate_col: "Data (tabulate r 1 f) = map (\<lambda>a. f a 0) [0..<r]"
proof -
  have "concat (map (\<lambda>a. [f a 0]) xs) = map (\<lambda>a. f a 0) xs" for xs :: "nat list"
    by (induction xs) simp_all
  then show ?thesis by (simp add: tabulate_def)
qed

lemma column_entries_tabulate: "map (\<lambda>a. At (tabulate r 1 f) a 0) [0..<r] = Data (tabulate r 1 f)"
  unfolding Data_tabulate_col by (rule map_cong) (simp_all del: One_nat_def)

lemma topology_pos:
  assumes "topology_ok n"
  shows "0 < net_i n" "0 < net_o n" "0 < length (layers n)" "nat (net_h n) = length (layers n)"
    "int (Rows (weights (layers n ! (length (layers n) - 1)))) = net_o n"
proof -
  from assms have len: "length (layers n) = length (hidden n) + 1" and h: "net_h n = int (length (layers n))"
    by (simp_all add: topology_ok_def)
  then show "0 < length (layers n)" "nat (net_h n) = length (layers n)" by simp_all
  from len have 0: "0 < length (layers n)" by simp
  from topology_layer[OF assms 0] show "0 < net_i n"
    by (auto simp: layer_ok_def Let_def wf_dense_def)
  from len have l: "length (layers n) - 1 < length (layers n)" "length (layers n) - 1 = length (hidden n)" by simp_all
  from topology_layer[OF assms l(1)] l(2) show "int (Rows (weights (layers n ! (length (layers n) - 1)))) = net_o n"
    by (simp add: layer_ok_def Let_def)
  moreover from topology_layer[OF assms l(1)] have "0 < Rows (weights (layers n ! (length (layers n) - 1)))"
    by (simp add: layer_ok_def Let_def wf_dense_def)
  ultimately show "0 < net_o n" by linarith
qed

lemma NewDense_column:
  "0 < r \<Longrightarrow> int (length xs) = r \<Longrightarrow> NewDense r 1 (Some xs) = Inr (column xs)"
  by (auto simp: NewDense_def column_def)

lemma column_sel [simp]: "Rows (column xs) = length xs" "Cols (column xs) = 1" "Data (column xs) = xs"
  by (simp_all add: column_def)

lemma a_of_entries:
  assumes "Cols (biases l) = 1 \<or> Cols x = 1" "Cols x = 1"
  shows "map (\<lambda>r. At (a_of l x) r 0) [0..<Rows (a_of l x)] = Data (a_of l x)"
    and "within_open 0 1 (Data (a_of l x))"
    and "length (Data (a_of l x)) = Rows (weights l)"
proof -
  have c: "Cols (z_of l x) = 1" using assms by (simp add: z_of_def)
  have r: "Rows (z_of l x) = Rows (weights l)" by (simp add: z_of_def)
  have e: "a_of l x = tabulate (Rows (weights l)) 1 (\<lambda>r c. sigmoid (int r) (int c) (At (z_of l x) r c))"
    by (simp add: a_of_def apply_m_def c r)
  show "map (\<lambda>r. At (a_of l x) r 0) [0..<Rows (a_of l x)] = Data (a_of l x)"
    unfolding e by (simp add: column_entries_tabulate del: One_nat_def)
  show "within_open 0 1 (Data (a_of l x))"
    unfolding e Data_tabulate_col within_open_def by (simp add: list_all_iff sigmoid_range)
  show "length (Data (a_of l x)) = Rows (weights l)"
    unfolding e by simp
qed

lemma Calc_correct:
  assumes "topology_ok n" and "int (length data) = net_i n"
  shows "Calc n data = Inr (Data (spec_activation (layers n) (column data) (length (layers n))))"
    and "length (Data (spec_activation (layers n) (column data) (length (layers n)))) = nat (net_o n)"
    and "within_open 0 1 (Data (spec_activation (layers n) (column data) (length (layers n))))"
proof -
  note p = topology_pos[OF assms(1)]
  have ch: "chain_ok (nat (net_i n)) (layers n)" by (rule topology_chain[OF assms(1)])
  have nd: "NewDense (net_i n) 1 (Some data) = Inr (column data)"
    using p(1) assms(2) by (rule NewDense_column)
  have rx: "Rows (column data) = nat (net_i n)" using assms(2) by simp
  obtain j where j: "length (layers n) = Suc j" using p(3) by (cases "length (layers n)") auto
  have loop: "foldE (Calc_body n (column data)) [0..<nat (net_h n)] None =
      Inr (Some (spec_activation (layers n) (column data) (length (layers n))))"
    using Calc_loop[OF ch rx, of "length (layers n)"] p(3,4) by simp
  let ?x = "spec_activation (layers n) (column data) j"
  have cx: "Cols ?x = 1"
    using spec_activation_dims[OF ch rx, of j] j by simp
  have last: "spec_activation (layers n) (column data) (length (layers n)) = a_of (layers n ! j) ?x"
    by (simp add: j)
  note ent = a_of_entries[of "layers n ! j" ?x, OF _ cx]
  show "Calc n data = Inr (Data (spec_activation (layers n) (column data) (length (layers n))))"
    using assms(2) ent(1) cx by (simp add: Calc_def nd loop last)
  show "within_open 0 1 (Data (spec_activation (layers n) (column data) (length (layers n))))"
    using ent(2) cx by (simp add: last)
  show "length (Data (spec_activation (layers n) (column data) (length (layers n)))) = nat (net_o n)"
    using ent(3) cx p(5) j by (simp add: last)
qed

section \<open>Back-propagation\<close>

declare spec_activation.simps(2) [simp del]

lemma forward_loop:
  assumes "chain_ok rin (layers n)" "Rows x = rin" "Cols x = 1" "j \<le> length (layers n)"
  shows "foldE (forward_body n x) [0..<j] ([], []) =
           Inr (map (spec_z (layers n) x) [0..<j],
                map (\<lambda>k. spec_activation (layers n) x (Suc k)) [0..<j])"
  using assms(4)
proof (induction j)
  case 0 show ?case by simp
next
  case (Suc j)
  then have j: "j < length (layers n)" and IH: "foldE (forward_body n x) [0..<j] ([], []) =
           Inr (map (spec_z (layers n) x) [0..<j],
                map (\<lambda>k. spec_activation (layers n) x (Suc k)) [0..<j])" by simp_all
  from spec_activation_dims[OF assms(1-3), of j] j
  have d: "Rows (spec_activation (layers n) x j) = (if j = 0 then rin else Rows (weights (layers n ! (j - 1))))"
      "Cols (spec_activation (layers n) x j) = 1" by simp_all
  let ?zs = "map (spec_z (layers n) x) [0..<j]"
  let ?as = "map (\<lambda>k. spec_activation (layers n) x (Suc k)) [0..<j]"
  have e: "apply_m sigmoid (spec_z (layers n) x j)
      = spec_activation (layers n) x (Suc j)" by (simp add: a_of_def spec_z_def spec_activation.simps(2))
  have zz: "z_of (layers n ! j) (spec_activation (layers n) x j) = spec_z (layers n) x j"
    by (simp add: spec_z_def)
  note ls = layer_step_ok[OF assms(1) j d, of sigmoid "\<lambda>z a. Inr (?zs @ [z], ?as @ [a])", unfolded zz e]
  have ij: "idx (layers n) (int j) = Inr (layers n ! j)" using j by simp
  have step: "forward_body n x (?zs, ?as) j
      = Inr (?zs @ [spec_z (layers n) x j], ?as @ [spec_activation (layers n) x (Suc j)])"
  proof (cases "j = 0")
    case True
    then show ?thesis using ij ls
      by (simp add: forward_body_def del: spec_activation.simps(2))
  next
    case False
    then obtain i where i: "j = Suc i" by (cases j) auto
    have pr: "idx ?as (int j - 1) = Inr (spec_activation (layers n) x j)"
      unfolding i by (simp add: idx_def nth_append del: spec_activation.simps)
    from False show ?thesis using ij pr ls
      by (simp add: forward_body_def del: spec_activation.simps(2))
  qed
  show ?case by (simp add: foldE_append IH step)
qed

lemma spec_z_dims:
  assumes "chain_ok rin ls" "Rows x = rin" "Cols x = 1" "k < length ls"
  shows "Dims (spec_z ls x k) = (Rows (weights (ls ! k)), 1)"
  using spec_activation_dims[OF assms(1-3), of k] assms(4)
  by (simp add: spec_z_def z_of_def Dims_def)

lemma prelude_ok:
  assumes "topology_ok n" "int (length xs) = net_i n" "int (length ys) = net_o n"
  shows "backpropagate_prelude n xs ys =
     Inr (column xs, map (spec_z (layers n) (column xs)) [0..<length (layers n)],
          map (\<lambda>k. spec_activation (layers n) (column xs) (Suc k)) [0..<length (layers n)],
          sub_m (column ys) (spec_activation (layers n) (column xs) (length (layers n))))"
proof -
  note p = topology_pos[OF assms(1)]
  have ch: "chain_ok (nat (net_i n)) (layers n)" by (rule topology_chain[OF assms(1)])
  have nx: "NewDense (net_i n) 1 (Some xs) = Inr (column xs)"
    using p(1) assms(2) by (rule NewDense_column)
  have ny: "NewDense (net_o n) 1 (Some ys) = Inr (column ys)"
    using p(2) assms(3) by (rule NewDense_column)
  have rx: "Rows (column xs) = nat (net_i n)" using assms(2) by simp
  have h: "\<not> net_h n < 0" using assms(1) by (simp add: topology_ok_def)
  obtain j where j: "length (layers n) = Suc j" using p(3) by (cases "length (layers n)") auto
  have loop: "foldE (forward_body n (column xs)) [0..<nat (net_h n)] ([], []) =
           Inr (map (spec_z (layers n) (column xs)) [0..<length (layers n)],
                map (\<lambda>k. spec_activation (layers n) (column xs) (Suc k)) [0..<length (layers n)])"
    using forward_loop[OF ch rx, of "length (layers n)"] p(4) by simp
  have hh: "net_h n - 1 = int j" using assms(1) j by (simp add: topology_ok_def)
  have last: "idx (map (\<lambda>k. spec_activation (layers n) (column xs) (Suc k)) [0..<length (layers n)]) (net_h n - 1)
      = Inr (spec_activation (layers n) (column xs) (length (layers n)))"
    unfolding hh using j by (simp add: idx_def nth_append del: spec_activation.simps)
  have da: "Rows (spec_activation (layers n) (column xs) (length (layers n))) = Rows (weights (layers n ! j))"
      "Cols (spec_activation (layers n) (column xs) (length (layers n))) = 1"
    using spec_activation_dims[OF ch rx, of "length (layers n)"] j by simp_all
  have s: "sub (column ys) (spec_activation (layers n) (column xs) (length (layers n)))
      = Inr (sub_m (column ys) (spec_activation (layers n) (column xs) (length (layers n))))"
  proof -
    have "0 < length ys" using p(2) assms(3) by linarith
    moreover have "length ys = Rows (weights (layers n ! j))" using p(5) assms(3) j by simp
    ultimately show ?thesis using da by (intro sub_ok) (simp_all add: Dims_def)
  qed
  show ?thesis using assms(2,3) h
    by (simp add: backpropagate_prelude_def nx ny loop last s del: spec_activation.simps)
qed

lemma backward_body_ok:
  fixes h :: nat
  assumes h: "net_h n = int h" "k < h" "length ls = h" "length zs = h" "length acts = h"
    and w: "0 < Rows (weights (ls ! k))" "0 < Cols (weights (ls ! k))"
    and b: "Dims (biases (ls ! k)) = (Rows (weights (ls ! k)), 1)"
    and z: "Dims (zs ! k) = (Rows (weights (ls ! k)), 1)"
    and a: "Dims (if k = 0 then input else acts ! (k - 1)) = (Cols (weights (ls ! k)), 1)"
    and e: "Suc k = h \<Longrightarrow> Dims le = (Rows (weights (ls ! k)), 1)"
           "Suc k \<noteq> h \<Longrightarrow> Dims le = (Rows (weights (ls ! Suc k)), 1) \<and>
               Cols (weights (ls ! Suc k)) = Rows (weights (ls ! k))"
  shows "backward_body n input zs acts (ls, le) k =
      (None, (ls[k := spec_update (learnRate n) (ls ! k)
                   (if Suc k = h then le else matmul (T (weights (ls ! Suc k))) le)
                   (zs ! k) (if k = 0 then input else acts ! (k - 1))],
             if Suc k = h then le else matmul (T (weights (ls ! Suc k))) le))"
proof -
  let ?d = "if Suc k = h then le else matmul (T (weights (ls ! Suc k))) le"
  let ?ap = "if k = 0 then input else acts ! (k - 1)"
  let ?l = "ls ! k"
  have 1: "(if int k \<noteq> net_h n - 1
              then bindE (idx ls (int k + 1)) (\<lambda>l1. dot (T (weights l1)) le)
              else Inr le) = Inr ?d"
  proof (cases "Suc k = h")
    case True then show ?thesis using h(1) by auto
  next
    case False
    with h have sk: "Suc k < length ls" by simp
    then have i: "idx ls (int k + 1) = Inr (ls ! Suc k)" by (simp add: idx_def nat_add_distrib)
    from e(2)[OF False] w have "dot (T (weights (ls ! Suc k))) le = Inr (matmul (T (weights (ls ! Suc k))) le)"
      by (intro dot_ok) (simp_all add: Dims_def)
    with False i h(1) show ?thesis by auto
  qed
  have dd: "Dims ?d = (Rows (weights ?l), 1)"
    using e by (cases "Suc k = h") (simp_all add: Dims_def)
  have ik: "idx ls (int k) = Inr ?l" "idx zs (int k) = Inr (zs ! k)" using h by simp_all
  have 2: "fun_mat dSigmoid (zs ! k) = Inr (apply_m dSigmoid (zs ! k))"
    using z w by (intro fun_mat_ok) (simp_all add: Dims_def)
  have 3: "mul ?d (apply_m dSigmoid (zs ! k)) = Inr (gradTerm ?d (zs ! k))"
    unfolding gradTerm_def using dd z w by (intro mul_ok) (simp_all add: Dims_def)
  have dg: "Rows (gradTerm ?d (zs ! k)) = Rows (weights ?l)" "Cols (gradTerm ?d (zs ! k)) = 1"
    using dd by (simp_all add: gradTerm_def Dims_def)
  have 4: "scl f (gradTerm ?d (zs ! k)) = Inr (scale_m f (gradTerm ?d (zs ! k)))" for f
    using dg w by (intro scl_ok) simp_all
  have 5: "add (biases ?l) (scale_m f (gradTerm ?d (zs ! k)))
        = Inr (add_m (biases ?l) (scale_m f (gradTerm ?d (zs ! k))))" for f
    using b dg w by (intro add_ok) (simp_all add: Dims_def)
  have 6: "(if k = 0 then Inr (T input)
            else bindE (idx acts (int k - 1)) (\<lambda>a. Inr (T a))) = Inr (T ?ap)"
  proof (cases k)
    case 0 then show ?thesis by simp
  next
    case (Suc i)
    with h have "idx acts (int k - 1) = Inr (acts ! i)" by (simp add: idx_def)
    with Suc show ?thesis by simp
  qed
  have 7: "dot (gradTerm ?d (zs ! k)) (T ?ap) = Inr (matmul (gradTerm ?d (zs ! k)) (T ?ap))"
    using dg a w by (intro dot_ok) (simp_all add: Dims_def)
  have 8: "scl f (matmul (gradTerm ?d (zs ! k)) (T ?ap)) = Inr (scale_m f (matmul (gradTerm ?d (zs ! k)) (T ?ap)))" for f
    using dg a w by (intro scl_ok) (simp_all add: Dims_def)
  have 9: "add (weights ?l) (scale_m f (matmul (gradTerm ?d (zs ! k)) (T ?ap)))
     = Inr (add_m (weights ?l) (scale_m f (matmul (gradTerm ?d (zs ! k)) (T ?ap))))" for f
    using dg a w by (intro add_ok) (simp_all add: Dims_def)
  let ?b = "add_m (biases ?l) (scale_m (2 * learnRate n) (gradTerm ?d (zs ! k)))"
  let ?ls1 = "ls[k := ?l\<lparr>biases := ?b\<rparr>]"
  have i1: "idx ?ls1 (int k) = Inr (?l\<lparr>biases := ?b\<rparr>)" using h by simp
  have fin: "?ls1[k := (?l\<lparr>biases := ?b\<rparr>)\<lparr>weights := add_m (weights ?l) (scale_m (learnRate n) (matmul (gradTerm ?d (zs ! k)) (T ?ap)))\<rparr>]
     = ls[k := spec_update (learnRate n) ?l ?d (zs ! k) ?ap]"
  proof -
    have r: "(?l\<lparr>biases := B\<rparr>)\<lparr>weights := W\<rparr> = \<lparr>weights = W, biases = B\<rparr>" for B W
      by (cases ?l) simp
    show ?thesis unfolding r list_update_overwrite
      by (simp add: spec_update_def T_def mult.commute)
  qed
  have sw: "weights (?l\<lparr>biases := B\<rparr>) = weights ?l" for B by simp
  show ?thesis
    unfolding backward_body_def
    by (simp only: prod.case 1 sum.case ik bindE_Inr 2 3 4 5 i1 6 7 8 9 sw fin)
qed

lemma backward_run_top:
  "net_h n = int h \<Longrightarrow> backward_run n input zs acts le h = (None, (layers n, le))"
  by (simp add: backward_run_def)

lemma backward_run_step:
  assumes "net_h n = int h" "k < h"
  shows "backward_run n input zs acts le k =
     (case backward_run n input zs acts le (Suc k) of
        (Some e, s) \<Rightarrow> (Some e, s)
      | (None, s) \<Rightarrow> backward_body n input zs acts s k)"
proof -
  have "[k..<h] = k # [Suc k..<h]" using assms(2) by (simp add: upt_conv_Cons)
  then have r: "rev [k..<nat (net_h n)] = rev [Suc k..<nat (net_h n)] @ [k]"
    using assms(1) by simp
  show ?thesis unfolding backward_run_def r foldS_append
    by (auto split: prod.splits option.splits)
qed

lemma dims_like_update:
  assumes "dims_like ls' ls" "k < length ls"
  shows "dims_like (ls'[k := spec_update lr (ls' ! k) d z a]) ls"
  using assms unfolding dims_like_def
  by (auto simp: nth_list_update spec_update_def Dims_def)

lemma backward_inv:
  assumes r: "bp_ready n input zs acts le" and k: "k \<le> length (layers n)"
  shows "fst (backward_run n input zs acts le k) = None \<and>
         dims_like (bp_layers n input zs acts le k) (layers n) \<and>
         (\<forall>j<k. bp_layers n input zs acts le k ! j = layers n ! j) \<and>
         Dims (bp_delta n input zs acts le k) =
           (Rows (weights (layers n ! (if k = length (layers n) then k - 1 else k))), 1) \<and>
         (k < length (layers n) \<longrightarrow>
            bp_delta n input zs acts le k =
              (if Suc k = length (layers n) then le
               else matmul (T (weights (bp_layers n input zs acts le (Suc k) ! Suc k)))
                      (bp_delta n input zs acts le (Suc k))) \<and>
            bp_layers n input zs acts le k =
              (bp_layers n input zs acts le (Suc k))
                [k := spec_update (learnRate n) (layers n ! k) (bp_delta n input zs acts le k)
                        (zs ! k) (if k = 0 then input else acts ! (k - 1))])"
  using k
proof (induction rule: inc_induct)
  case base
  from r have h: "net_h n = int (length (layers n))" by (simp add: bp_ready_def)
  from r show ?case
    by (simp add: backward_run_top[OF h] bp_layers_def bp_delta_def dims_like_def bp_ready_def)
next
  case (step k)
  let ?h = "length (layers n)"
  let ?ls = "layers n"
  let ?ls1 = "bp_layers n input zs acts le (Suc k)"
  let ?d1 = "bp_delta n input zs acts le (Suc k)"
  from r have h: "net_h n = int ?h" and ch: "chain_ok (Rows input) ?ls" and ci: "Cols input = 1"
    and lz: "length zs = ?h" and la: "length acts = ?h"
    and dz: "\<And>j. j < ?h \<Longrightarrow> Dims (zs ! j) = (Rows (weights (?ls ! j)), 1)"
    and da: "\<And>j. j < ?h \<Longrightarrow> Dims (acts ! j) = (Rows (weights (?ls ! j)), 1)"
    by (simp_all add: bp_ready_def)
  from step.IH have n1: "fst (backward_run n input zs acts le (Suc k)) = None"
    and dl: "dims_like ?ls1 ?ls" and same: "\<And>j. j < Suc k \<Longrightarrow> ?ls1 ! j = ?ls ! j"
    and dd: "Dims ?d1 = (Rows (weights (?ls ! (if Suc k = ?h then Suc k - 1 else Suc k))), 1)"
    by simp_all
  from n1 have run1: "backward_run n input zs acts le (Suc k) = (None, (?ls1, ?d1))"
    by (simp add: bp_layers_def bp_delta_def prod_eq_iff)
  from step.hyps have kh: "k < ?h" by simp
  from dl have len1: "length ?ls1 = ?h" by (simp add: dims_like_def)
  from dl kh have dk: "Dims (weights (?ls1 ! k)) = Dims (weights (?ls ! k))"
      "Dims (biases (?ls1 ! k)) = Dims (biases (?ls ! k))" by (simp_all add: dims_like_def)
  from ch kh have c: "0 < Rows (weights (?ls ! k))" "0 < Cols (weights (?ls ! k))"
    "Dims (biases (?ls ! k)) = (Rows (weights (?ls ! k)), 1)"
    "Cols (weights (?ls ! k)) = (if k = 0 then Rows input else Rows (weights (?ls ! (k - 1))))"
    by (auto simp: chain_ok_def)
  have rk: "Rows (weights (?ls1 ! k)) = Rows (weights (?ls ! k))"
           "Cols (weights (?ls1 ! k)) = Cols (weights (?ls ! k))"
    using dk by (simp_all add: Dims_def)
  have a: "Dims (if k = 0 then input else acts ! (k - 1)) = (Cols (weights (?ls1 ! k)), 1)"
  proof (cases k)
    case 0 with c ci rk show ?thesis by (simp add: Dims_def)
  next
    case (Suc i)
    with kh have "i < ?h" by simp
    from da[OF this] c(4) Suc rk show ?thesis by simp
  qed
  have e2: "Dims ?d1 = (Rows (weights (?ls1 ! Suc k)), 1) \<and>
            Cols (weights (?ls1 ! Suc k)) = Rows (weights (?ls1 ! k))" if "Suc k \<noteq> ?h"
  proof -
    from that kh have sk: "Suc k < ?h" by simp
    with dl have "Dims (weights (?ls1 ! Suc k)) = Dims (weights (?ls ! Suc k))"
      by (simp add: dims_like_def)
    moreover from ch sk have "Cols (weights (?ls ! Suc k)) = Rows (weights (?ls ! k))"
      by (auto simp: chain_ok_def)
    ultimately show ?thesis using dd that rk by (simp add: Dims_def)
  qed
  have e1: "Dims ?d1 = (Rows (weights (?ls1 ! k)), 1)" if "Suc k = ?h"
  proof -
    from that have "(if Suc k = ?h then Suc k - 1 else Suc k) = k" by simp
    with dd rk show ?thesis by (simp only:)
  qed
  have body: "backward_body n input zs acts (?ls1, ?d1) k =
      (None, (?ls1[k := spec_update (learnRate n) (?ls1 ! k)
                   (if Suc k = ?h then ?d1 else matmul (T (weights (?ls1 ! Suc k))) ?d1)
                   (zs ! k) (if k = 0 then input else acts ! (k - 1))],
             if Suc k = ?h then ?d1 else matmul (T (weights (?ls1 ! Suc k))) ?d1))"
    using rk c dk dz[OF kh] a e1 e2
    by (intro backward_body_ok[OF h kh len1 lz la]) simp_all
  have top: "?d1 = le" if "Suc k = ?h"
    using that backward_run_top[OF h, of input zs acts le] by (simp add: bp_delta_def)
  have run: "backward_run n input zs acts le k =
      (None, (?ls1[k := spec_update (learnRate n) (?ls ! k)
                   (if Suc k = ?h then le else matmul (T (weights (?ls1 ! Suc k))) ?d1)
                   (zs ! k) (if k = 0 then input else acts ! (k - 1))],
             if Suc k = ?h then le else matmul (T (weights (?ls1 ! Suc k))) ?d1))"
    unfolding backward_run_step[OF h kh] run1 using body same[of k] top by auto
  have d: "bp_delta n input zs acts le k = (if Suc k = ?h then le else matmul (T (weights (?ls1 ! Suc k))) ?d1)"
    by (simp add: bp_delta_def run)
  have l: "bp_layers n input zs acts le k = ?ls1[k := spec_update (learnRate n) (?ls ! k)
                   (bp_delta n input zs acts le k) (zs ! k) (if k = 0 then input else acts ! (k - 1))]"
    unfolding d by (simp add: bp_layers_def run)
  have dl': "dims_like (bp_layers n input zs acts le k) ?ls"
    unfolding l using dims_like_update[OF dl kh, of "learnRate n"] same[of k] by simp
  have same': "\<forall>j<k. bp_layers n input zs acts le k ! j = ?ls ! j"
    unfolding l using same by simp
  have dd': "Dims (bp_delta n input zs acts le k) = (Rows (weights (?ls ! k)), 1)"
  proof (cases "Suc k = ?h")
    case True with d top e1 rk show ?thesis by simp
  next
    case False
    from e2[OF False] rk show ?thesis unfolding d using False by (simp add: Dims_def)
  qed
  show ?case using run d l dl' same' dd' kh by simp
qed

lemma bp_layers_keep:
  assumes r: "bp_ready n input zs acts le" and j: "j < length (layers n)" and k: "k \<le> j"
  shows "bp_layers n input zs acts le k ! j = bp_layers n input zs acts le j ! j"
  using k
proof (induction rule: inc_induct)
  case base show ?case by simp
next
  case (step k)
  from step.hyps j have kh: "k < length (layers n)" "k \<le> length (layers n)" by simp_all
  from backward_inv[OF r kh(2)] kh(1)
  have "bp_layers n input zs acts le k =
      (bp_layers n input zs acts le (Suc k))
        [k := spec_update (learnRate n) (layers n ! k) (bp_delta n input zs acts le k)
                (zs ! k) (if k = 0 then input else acts ! (k - 1))]" by simp
  then have "bp_layers n input zs acts le k ! j = bp_layers n input zs acts le (Suc k) ! j"
    using step.hyps by simp
  with step.IH show ?case by simp
qed

lemma bp_layers_final:
  assumes r: "bp_ready n input zs acts le" and j: "j < length (layers n)"
  shows "bp_layers n input zs acts le 0 ! j =
           spec_update (learnRate n) (layers n ! j) (bp_delta n input zs acts le j)
             (zs ! j) (if j = 0 then input else acts ! (j - 1))"
proof -
  from j have j': "j \<le> length (layers n)" by simp
  from backward_inv[OF r j'] j
  have l: "bp_layers n input zs acts le j =
      (bp_layers n input zs acts le (Suc j))
        [j := spec_update (learnRate n) (layers n ! j) (bp_delta n input zs acts le j)
                (zs ! j) (if j = 0 then input else acts ! (j - 1))]" by simp
  from j have sj: "Suc j \<le> length (layers n)" by simp
  from backward_inv[OF r sj] have "length (bp_layers n input zs acts le (Suc j)) = length (layers n)"
    by (simp add: dims_like_def)
  with l j have "bp_layers n input zs acts le j ! j =
      spec_update (learnRate n) (layers n ! j) (bp_delta n input zs acts le j)
                (zs ! j) (if j = 0 then input else acts ! (j - 1))" by simp
  with bp_layers_keep[OF r j, of 0] show ?thesis by simp
qed

lemma bp_delta_rec:
  assumes r: "bp_ready n input zs acts le" and j: "Suc j < length (layers n)"
  shows "bp_delta n input zs acts le j =
           matmul (T (weights (bp_layers n input zs acts le 0 ! Suc j)))
             (bp_delta n input zs acts le (Suc j))"
proof -
  from j have j': "j \<le> length (layers n)" "j < length (layers n)" "Suc j \<noteq> length (layers n)" by simp_all
  from backward_inv[OF r j'(1)] j'(2,3)
  have "bp_delta n input zs acts le j =
      matmul (T (weights (bp_layers n input zs acts le (Suc j) ! Suc j)))
                      (bp_delta n input zs acts le (Suc j))" by simp
  with bp_layers_keep[OF r j, of 0] show ?thesis by simp
qed

lemma bp_delta_last:
  assumes r: "bp_ready n input zs acts le"
  shows "bp_delta n input zs acts le (length (layers n) - 1) = le"
proof -
  from r have h: "0 < length (layers n)" by (simp add: bp_ready_def)
  then have "length (layers n) - 1 \<le> length (layers n)" "length (layers n) - 1 < length (layers n)"
    "Suc (length (layers n) - 1) = length (layers n)" by simp_all
  with backward_inv[OF r this(1)] show ?thesis by simp
qed

text \<open>The forward pass of a well-formed network prepares the second loop.\<close>

lemma spec_activation_Suc_dims:
  assumes "chain_ok rin ls" "Rows x = rin" "Cols x = 1" "k < length ls"
  shows "Dims (spec_activation ls x (Suc k)) = (Rows (weights (ls ! k)), 1)"
  using spec_activation_dims[OF assms(1-3), of "Suc k"] assms(4) by (simp add: Dims_def)

lemma topology_bp_ready:
  assumes "topology_ok n" "int (length xs) = net_i n" "int (length ys) = net_o n"
  shows "bp_ready n (column xs) (map (spec_z (layers n) (column xs)) [0..<length (layers n)])
          (map (\<lambda>k. spec_activation (layers n) (column xs) (Suc k)) [0..<length (layers n)])
          (sub_m (column ys) (spec_activation (layers n) (column xs) (length (layers n))))"
proof -
  note p = topology_pos[OF assms(1)]
  have rx: "Rows (column xs) = nat (net_i n)" using assms(2) by simp
  have ch: "chain_ok (Rows (column xs)) (layers n)"
    unfolding rx by (rule topology_chain[OF assms(1)])
  have h: "net_h n = int (length (layers n))" using assms(1) by (simp add: topology_ok_def)
  have "length ys = Rows (weights (layers n ! (length (layers n) - 1)))"
    using p(5) assms(3) by simp
  then have e: "Dims (sub_m (column ys) (spec_activation (layers n) (column xs) (length (layers n))))
      = (Rows (weights (layers n ! (length (layers n) - 1))), 1)"
    by (simp add: Dims_def)
  show ?thesis
    unfolding bp_ready_def
    using h p(3) ch e spec_z_dims[OF ch refl] spec_activation_Suc_dims[OF ch refl]
    by simp
qed

lemma backpropagate_result:
  assumes "topology_ok n" "int (length xs) = net_i n" "int (length ys) = net_o n"
  defines "x \<equiv> column xs"
  defines "zs \<equiv> map (spec_z (layers n) x) [0..<length (layers n)]"
  defines "acts \<equiv> map (\<lambda>k. spec_activation (layers n) x (Suc k)) [0..<length (layers n)]"
  defines "e0 \<equiv> sub_m (column ys) (spec_activation (layers n) x (length (layers n)))"
  shows "backpropagate n xs ys = (None, n\<lparr>layers := bp_layers n x zs acts e0 0\<rparr>)"
    and "k \<le> length (layers n) \<Longrightarrow> layerErrors_at n xs ys k = Some (bp_delta n x zs acts e0 k)"
    and "bp_ready n x zs acts e0"
proof -
  show r: "bp_ready n x zs acts e0"
    unfolding x_def zs_def acts_def e0_def by (rule topology_bp_ready[OF assms(1-3)])
  have pre: "backpropagate_prelude n xs ys = Inr (x, zs, acts, e0)"
    unfolding x_def zs_def acts_def e0_def by (rule prelude_ok[OF assms(1-3)])
  from backward_inv[OF r, of 0] have "fst (backward_run n x zs acts e0 0) = None" by simp
  then have "backward_run n x zs acts e0 0 = (None, (bp_layers n x zs acts e0 0, bp_delta n x zs acts e0 0))"
    by (simp add: bp_layers_def bp_delta_def prod_eq_iff)
  then show "backpropagate n xs ys = (None, n\<lparr>layers := bp_layers n x zs acts e0 0\<rparr>)"
    by (simp add: backpropagate_def pre)
  show "layerErrors_at n xs ys k = Some (bp_delta n x zs acts e0 k)" if "k \<le> length (layers n)"
  proof -
    from backward_inv[OF r that] have "fst (backward_run n x zs acts e0 k) = None" by simp
    then have "backward_run n x zs acts e0 k = (None, (bp_layers n x zs acts e0 k, bp_delta n x zs acts e0 k))"
      by (simp add: bp_layers_def bp_delta_def prod_eq_iff)
    then show ?thesis by (simp add: layerErrors_at_def pre)
  qed
qed

text \<open>
  Claim C1. For a network that satisfies the invariant of section 3 and vectors of lengths
  \<open>inputSize\<close> and \<open>outputSize\<close>, \<open>backpropagate\<close> returns without a panic; the error term
  of the last layer is \<open>expected - a_last\<close>; and for every layer \<open>k\<close>, with \<open>delta\<close> the
  value of \<open>layerErrors\<close> in the iteration for that layer, the new bias matrix is the old
  one plus \<open>learningRate * 2 * hadamard(delta, dSigmoid(z_k))\<close> and the new weight matrix
  is the old one plus \<open>learningRate * matmul(hadamard(delta, dSigmoid(z_k)),
  transpose(a_{k-1}))\<close>, where \<open>z_k\<close> and \<open>a_{k-1}\<close> are those of the forward pass on the
  network as it was at entry and \<open>a_{-1}\<close> is the input. For a layer that is not the last,
  \<open>delta\<close> is the product of the transpose of the next layer's weight matrix, as this call
  leaves it, with the \<open>delta\<close> of the next layer. Nothing else of the network changes.
\<close>

theorem backpropagate_update_rule:
  assumes "topology_ok n" "int (length xs) = net_i n" "int (length ys) = net_o n"
  shows "\<exists>n'. backpropagate n xs ys = (None, n') \<and>
          n' = n\<lparr>layers := layers n'\<rparr> \<and> length (layers n') = length (layers n) \<and>
          layerErrors_at n xs ys (length (layers n) - 1) =
            Some (sub_m (column ys) (spec_activation (layers n) (column xs) (length (layers n)))) \<and>
          (\<forall>k<length (layers n). \<exists>delta.
             layerErrors_at n xs ys k = Some delta \<and>
             biases (layers n' ! k) =
               add_m (biases (layers n ! k))
                 (scale_m (learnRate n * 2) (gradTerm delta (spec_z (layers n) (column xs) k))) \<and>
             weights (layers n' ! k) =
               add_m (weights (layers n ! k))
                 (scale_m (learnRate n)
                    (matmul (gradTerm delta (spec_z (layers n) (column xs) k))
                       (transpose_m (spec_activation (layers n) (column xs) k)))) \<and>
             (Suc k < length (layers n) \<longrightarrow>
                (\<exists>next. layerErrors_at n xs ys (Suc k) = Some next \<and>
                   delta = matmul (transpose_m (weights (layers n' ! Suc k))) next)))"
proof -
  let ?x = "column xs"
  let ?zs = "map (spec_z (layers n) ?x) [0..<length (layers n)]"
  let ?acts = "map (\<lambda>k. spec_activation (layers n) ?x (Suc k)) [0..<length (layers n)]"
  let ?e0 = "sub_m (column ys) (spec_activation (layers n) ?x (length (layers n)))"
  let ?n' = "n\<lparr>layers := bp_layers n ?x ?zs ?acts ?e0 0\<rparr>"
  note res = backpropagate_result[OF assms]
  have len: "length (bp_layers n ?x ?zs ?acts ?e0 0) = length (layers n)"
    using backward_inv[OF res(3), of 0] by (simp add: dims_like_def)
  have last: "layerErrors_at n xs ys (length (layers n) - 1) = Some ?e0"
    using res(2)[of "length (layers n) - 1"] bp_delta_last[OF res(3)] by simp
  have each: "\<exists>delta. layerErrors_at n xs ys k = Some delta \<and>
             biases (layers ?n' ! k) =
               add_m (biases (layers n ! k))
                 (scale_m (learnRate n * 2) (gradTerm delta (spec_z (layers n) ?x k))) \<and>
             weights (layers ?n' ! k) =
               add_m (weights (layers n ! k))
                 (scale_m (learnRate n)
                    (matmul (gradTerm delta (spec_z (layers n) ?x k))
                       (transpose_m (spec_activation (layers n) ?x k)))) \<and>
             (Suc k < length (layers n) \<longrightarrow>
                (\<exists>next. layerErrors_at n xs ys (Suc k) = Some next \<and>
                   delta = matmul (transpose_m (weights (layers ?n' ! Suc k))) next))"
    if k: "k < length (layers n)" for k
  proof -
    have ap: "(if k = 0 then ?x else ?acts ! (k - 1)) = spec_activation (layers n) ?x k"
      using k by (cases k) simp_all
    have zk: "?zs ! k = spec_z (layers n) ?x k" using k by simp
    have nx: "\<exists>next. layerErrors_at n xs ys (Suc k) = Some next \<and>
        bp_delta n ?x ?zs ?acts ?e0 k = matmul (transpose_m (weights (layers ?n' ! Suc k))) next"
      if sk: "Suc k < length (layers n)"
      using res(2)[of "Suc k"] bp_delta_rec[OF res(3) sk] sk by (simp add: T_def)
    from bp_layers_final[OF res(3) k] res(2)[of k] k nx show ?thesis
      unfolding ap zk by (simp add: spec_update_def)
  qed
  show ?thesis
    apply (rule exI[of _ ?n'])
    using res(1) len last each by simp
qed

section \<open>The scenario of section 8\<close>

lemma upt_2: "[0..<2] = [0, 1]" by (simp add: upt_rec)

lemma NewNetwork_net221: "NewNetwork 2 1 [2] (1/10) False rnd = Inr (net221, rnd)"
  by (simp add: NewNetwork_def NewNetwork_body_def upt_2 idx_def newLayer_def NewDense_def net221_def zeros_def)

lemma topology_net221: "topology_ok net221"
  by (simp add: topology_ok_def net221_def upt_2 layer_ok_def wf_dense_def zeros_def)

lemmas mat_defs = dot_def add_def sub_def mul_def scl_def fun_mat_def Product_def Add_def Sub_def
  MulElem_def Scale_def Apply_def NewDense_def Dims_def matmul_def add_m_def sub_m_def hadamard_def
  scale_m_def apply_m_def transpose_m_def T_def tabulate_def At_def

lemma sigmoid_0 [simp]: "sigmoid r c 0 = 1/2" by (simp add: sigmoid_def)

lemma dSigmoid_0 [simp]: "dSigmoid r c 0 = 1/4" by (simp add: dSigmoid_def)

lemma prelude_net221:
  "backpropagate_prelude net221 [1, 0] [1] =
     Inr (\<lparr>Rows = 2, Cols = 1, Data = [1, 0]\<rparr>,
          [\<lparr>Rows = 2, Cols = 1, Data = [0, 0]\<rparr>, \<lparr>Rows = 1, Cols = 1, Data = [0]\<rparr>],
          [\<lparr>Rows = 2, Cols = 1, Data = [1/2, 1/2]\<rparr>, \<lparr>Rows = 1, Cols = 1, Data = [1/2]\<rparr>],
          \<lparr>Rows = 1, Cols = 1, Data = [1/2]\<rparr>)"
  by (simp add: backpropagate_prelude_def net221_def zeros_def upt_2 forward_body_def idx_def mat_defs
        numeral_2_eq_2)

lemma backward_net221:
  "backward_run net221 \<lparr>Rows = 2, Cols = 1, Data = [1, 0]\<rparr>
          [\<lparr>Rows = 2, Cols = 1, Data = [0, 0]\<rparr>, \<lparr>Rows = 1, Cols = 1, Data = [0]\<rparr>]
          [\<lparr>Rows = 2, Cols = 1, Data = [1/2, 1/2]\<rparr>, \<lparr>Rows = 1, Cols = 1, Data = [1/2]\<rparr>]
          \<lparr>Rows = 1, Cols = 1, Data = [1/2]\<rparr> 0 =
     (None, (layers net221_trained, \<lparr>Rows = 2, Cols = 1, Data = [1/320, 1/320]\<rparr>))"
  by (simp add: backward_run_def backward_body_def net221_def net221_trained_def zeros_def upt_2 idx_def mat_defs
        numeral_2_eq_2)

lemma backpropagate_net221:
  "backpropagate net221 [1, 0] [1] = (None, net221_trained)"
proof -
  have "net221\<lparr>layers := layers net221_trained\<rparr> = net221_trained"
    by (simp add: net221_def net221_trained_def)
  then show ?thesis
    by (simp only: backpropagate_def prelude_net221 backward_net221 sum.case prod.case)
qed

lemma sigmoid_indep: "sigmoid r c v = sigmoid 0 0 v" by (simp add: sigmoid_def)

lemma Calc_net221: "Calc net221 [1, 0] = Inr [1/2]"
  by (simp add: Calc_def Calc_body_def net221_def zeros_def upt_2 idx_def mat_defs
        numeral_2_eq_2)

lemma Calc_net221_trained:
  "Calc net221_trained [1, 0] = Inr [sigmoid 0 0 (sigmoid 0 0 (3/12800) / 80 + 1/40)]"
  by (simp add: Calc_def Calc_body_def net221_trained_def upt_2 idx_def mat_defs
        numeral_2_eq_2 sigmoid_indep[of 1] sigmoid_indep[of _ 1] field_simps)

lemma sigmoid_pos_half: "0 < v \<Longrightarrow> 1/2 < sigmoid r c v"
proof -
  assume "0 < v"
  then have "exp (- v) < 1" by simp
  then have a: "1 + exp (- v) < 2" by simp
  have b: "0 < 1 + exp (- v)" using exp_gt_zero[of "- v"] by linarith
  have "1 / 2 < 1 / (1 + exp (- v))"
    using b a by (intro frac_less2) simp_all
  then show ?thesis unfolding sigmoid_def .
qed

lemma out221_range: "1/2 < out221 \<and> out221 < 1"
proof -
  have "0 < sigmoid 0 0 (3/12800)" using sigmoid_range by blast
  then have "0 < sigmoid 0 0 (3/12800) / 80 + 1/40" by simp
  from sigmoid_pos_half[OF this] sigmoid_range show ?thesis unfolding out221_def by blast
qed

lemma cost_after: "(1 - out221)\<^sup>2 < 1/4"
proof -
  from out221_range have "0 < 1 - out221" "1 - out221 < 1/2" by simp_all
  then have "(1 - out221)\<^sup>2 < (1/2)\<^sup>2" by (intro power_strict_mono) simp_all
  then show ?thesis by (simp add: power2_eq_square)
qed

lemma Train_net221:
  "Train net221 [[1, 0]] [[1]] 1 = (None, net221_trained, [(1 - out221)\<^sup>2])"
  by (simp add: Train_def Train_epoch_def Train_example_def idx_def backpropagate_net221
        Calc_net221_trained totalCost_def out221_def)

text \<open>
  Claim C3. The zero-initialised network with \<open>inputSize = 2\<close>, \<open>outputSize = 1\<close>,
  \<open>hiddenSizes = [2]\<close> and \<open>learningRate = 0.1\<close> is \<open>net221\<close>. On the example
  \<open>[1, 0] \<mapsto> [1]\<close> every pre-activation is \<open>0\<close> and every activation \<open>sigmoid(0) = 0.5\<close>, so
  the output is \<open>0.5\<close> and the squared error \<open>0.25\<close>. \<open>Train\<close> for one epoch on this example
  returns \<open>net221_trained\<close>, in which the weight matrix and the bias matrix of both layers
  differ from the zero matrices, and the squared error of the trained network on the
  example, which is also the average cost that \<open>Train\<close> prints, is below \<open>0.25\<close>.
\<close>

theorem zero_network_one_epoch:
  "NewNetwork 2 1 [2] (1/10) False rnd = Inr (net221, rnd) \<and>
   backpropagate_prelude net221 [1, 0] [1] =
     Inr (\<lparr>Rows = 2, Cols = 1, Data = [1, 0]\<rparr>,
          [\<lparr>Rows = 2, Cols = 1, Data = [0, 0]\<rparr>, \<lparr>Rows = 1, Cols = 1, Data = [0]\<rparr>],
          [\<lparr>Rows = 2, Cols = 1, Data = [1/2, 1/2]\<rparr>, \<lparr>Rows = 1, Cols = 1, Data = [1/2]\<rparr>],
          \<lparr>Rows = 1, Cols = 1, Data = [1/2]\<rparr>) \<and>
   Calc net221 [1, 0] = Inr [1/2] \<and>
   totalCost [1] [1/2] = Inr (1/4) \<and>
   Train net221 [[1, 0]] [[1]] 1 = (None, net221_trained, [(1 - out221)\<^sup>2]) \<and>
   weights (layers net221_trained ! 0) \<noteq> weights (layers net221 ! 0) \<and>
   biases (layers net221_trained ! 0) \<noteq> biases (layers net221 ! 0) \<and>
   weights (layers net221_trained ! 1) \<noteq> weights (layers net221 ! 1) \<and>
   biases (layers net221_trained ! 1) \<noteq> biases (layers net221 ! 1) \<and>
   Calc net221_trained [1, 0] = Inr [out221] \<and>
   totalCost [1] [out221] = Inr ((1 - out221)\<^sup>2) \<and>
   (1 - out221)\<^sup>2 < 1/4"
proof -
  have c0: "totalCost [1] [1/2] = Inr (1/4)"
    by (simp add: totalCost_def power2_eq_square)
  have c1: "totalCost [1] [out221] = Inr ((1 - out221)\<^sup>2)"
    by (simp add: totalCost_def)
  have d: "weights (layers net221_trained ! 0) \<noteq> weights (layers net221 ! 0)"
    "biases (layers net221_trained ! 0) \<noteq> biases (layers net221 ! 0)"
    "weights (layers net221_trained ! 1) \<noteq> weights (layers net221 ! 1)"
    "biases (layers net221_trained ! 1) \<noteq> biases (layers net221 ! 1)"
    by (simp_all add: net221_def net221_trained_def zeros_def eval_nat_numeral)
  have c: "Calc net221_trained [1, 0] = Inr [out221]"
    by (simp add: Calc_net221_trained out221_def)
  show ?thesis
    using NewNetwork_net221 prelude_net221 Calc_net221 c0 Train_net221 d c c1 cost_after
    by (simp only: simp_thms)
qed

theorem backpropagate_update_rule_witness:
  "topology_ok net221 \<and> int (length [1, 0 :: real]) = net_i net221 \<and>
   int (length [1 :: real]) = net_o net221 \<and>
   (\<exists>n'. backpropagate net221 [1, 0] [1] = (None, n') \<and>
          n' = net221\<lparr>layers := layers n'\<rparr> \<and> length (layers n') = length (layers net221) \<and>
          layerErrors_at net221 [1, 0] [1] (length (layers net221) - 1) =
            Some (sub_m (column [1])
                    (spec_activation (layers net221) (column [1, 0]) (length (layers net221)))) \<and>
          (\<forall>k<length (layers net221). \<exists>delta.
             layerErrors_at net221 [1, 0] [1] k = Some delta \<and>
             biases (layers n' ! k) =
               add_m (biases (layers net221 ! k))
                 (scale_m (learnRate net221 * 2)
                    (gradTerm delta (spec_z (layers net221) (column [1, 0]) k))) \<and>
             weights (layers n' ! k) =
               add_m (weights (layers net221 ! k))
                 (scale_m (learnRate net221)
                    (matmul (gradTerm delta (spec_z (layers net221) (column [1, 0]) k))
                       (transpose_m (spec_activation (layers net221) (column [1, 0]) k)))) \<and>
             (Suc k < length (layers net221) \<longrightarrow>
                (\<exists>next. layerErrors_at net221 [1, 0] [1] (Suc k) = Some next \<and>
                   delta = matmul (transpose_m (weights (layers n' ! Suc k))) next))))"
proof -
  have h2: "int (length [1, 0 :: real]) = net_i net221" by (simp add: net221_def)
  have h3: "int (length [1 :: real]) = net_o net221" by (simp add: net221_def)
  from backpropagate_update_rule[OF topology_net221 h2 h3] topology_net221 h2 h3
  show ?thesis by (intro conjI)
qed

theorem zero_network_one_epoch_witness:
  "int (length [1, 0 :: real]) = net_i net221 \<and> int (length [1 :: real]) = net_o net221 \<and>
   NewNetwork 2 1 [2] (1/10) False (sconst 0) = Inr (net221, sconst 0) \<and>
   Calc net221 [1, 0] = Inr [1/2] \<and>
   totalCost [1] [1/2] = Inr (1/4) \<and>
   Train net221 [[1, 0]] [[1]] 1 = (None, net221_trained, [(1 - out221)\<^sup>2]) \<and>
   Calc net221_trained [1, 0] = Inr [out221] \<and>
   totalCost [1] [out221] = Inr ((1 - out221)\<^sup>2) \<and>
   (1 - out221)\<^sup>2 < 1/4"
proof -
  have h2: "int (length [1, 0 :: real]) = net_i net221" by (simp add: net221_def)
  have h3: "int (length [1 :: real]) = net_o net221" by (simp add: net221_def)
  from zero_network_one_epoch[of "sconst 0"] h2 h3 show ?thesis by (intro conjI) simp_all
qed

section \<open>The store: what an operation can change\<close>

lemma grows_refl [simp]: "grows A s s"
  by (simp add: grows_def)

lemma grows_trans: "grows A s s1 \<Longrightarrow> grows A s1 s2 \<Longrightarrow> grows A s s2"
  unfolding grows_def by (metis (no_types, lifting) le_trans less_le_trans)

lemma grows_mono: "grows A s s' \<Longrightarrow> A \<subseteq> B \<Longrightarrow> grows B s s'"
  unfolding grows_def by blast

lemma preserves_mono: "preserves A m \<Longrightarrow> A \<subseteq> B \<Longrightarrow> preserves B m"
  unfolding preserves_def using grows_mono by blast

lemma preserves_returnS [simp]: "preserves A (returnS x)"
  by (simp add: preserves_def returnS_def)

lemma preserves_liftE [simp]: "preserves A (liftE r)"
  by (simp add: preserves_def liftE_def)

lemma preserves_load [simp]: "preserves A (load r)"
  by (auto simp: preserves_def load_def split: option.splits matref.splits if_splits)

lemma preserves_T_st [simp]: "preserves A (T_st r)"
  by (auto simp: T_st_def split: option.splits matref.splits)

lemma preserves_read_layer [simp]: "preserves A (read_layer n k)"
  by (auto simp: preserves_def read_layer_def split: if_splits)

lemma preserves_NewDense_st [simp]: "preserves A (NewDense_st r c d)"
  by (auto simp: preserves_def NewDense_st_def grows_def nth_append split: sum.splits)

lemma preserves_bindS:
  assumes "preserves A m" "\<And>x. preserves A (f x)"
  shows "preserves A (bindS m f)"
  unfolding preserves_def
proof (intro allI impI)
  fix s r s' assume b: "bindS m f s = (r, s')"
  obtain r1 s1 where m: "m s = (r1, s1)" by (cases "m s")
  with assms(1) have g1: "grows A s s1" by (simp add: preserves_def)
  show "grows A s s'"
  proof (cases r1)
    case (Inl e)
    with b m have "s' = s1" by (simp add: bindS_def)
    with g1 show ?thesis by simp
  next
    case (Inr x)
    with b m have "f x s1 = (r, s')" by (simp add: bindS_def)
    with assms(2)[of x] have "grows A s1 s'" by (simp add: preserves_def)
    with g1 show ?thesis by (rule grows_trans)
  qed
qed

lemma preserves_foldSt:
  assumes "\<And>x k. preserves A (f x k)"
  shows "preserves A (foldSt f ks x)"
  by (induction ks arbitrary: x) (simp_all add: preserves_bindS assms)

text \<open>A wrapper allocates its receiver and writes into nothing else.\<close>

lemma alloc_write:
  shows "preserves A (bindS (NewDense_st r c None) (\<lambda>res. bindS (load res) (\<lambda>z.
           bindS (liftE (op z)) (\<lambda>v. bindS (write_dense res v) (\<lambda>u. returnS res)))))"
  unfolding preserves_def
  by (auto simp: bindS_def NewDense_st_def load_def liftE_def write_dense_def returnS_def
        grows_def nth_append split: sum.splits prod.splits if_splits)

lemma alloc_write2:
  "preserves A (bindS (NewDense_st r c None) (\<lambda>res. bindS (load n) (\<lambda>b. bindS (load res) (\<lambda>z.
           bindS (liftE (op z b)) (\<lambda>v. bindS (write_dense res v) (\<lambda>u. returnS res))))))"
  unfolding preserves_def
  by (auto simp: bindS_def NewDense_st_def load_def liftE_def write_dense_def returnS_def
        grows_def nth_append split: sum.splits prod.splits if_splits option.splits matref.splits)

lemma preserves_dot_st [simp]: "preserves A (dot_st m n)"
  unfolding dot_st_def by (intro preserves_bindS preserves_load alloc_write)

lemma preserves_mul_st [simp]: "preserves A (mul_st m n)"
  unfolding mul_st_def by (intro preserves_bindS preserves_load alloc_write)

lemma preserves_fun_mat_st [simp]: "preserves A (fun_mat_st fn m)"
  unfolding fun_mat_st_def by (intro preserves_bindS preserves_load alloc_write)

lemma preserves_scl_st [simp]: "preserves A (scl_st f m)"
  unfolding scl_st_def by (intro preserves_bindS preserves_load alloc_write)

lemma preserves_add_st [simp]: "preserves A (add_st m n)"
  unfolding add_st_def by (intro preserves_bindS preserves_load alloc_write2)

lemma preserves_sub_st [simp]: "preserves A (sub_st m n)"
  unfolding sub_st_def by (intro preserves_bindS preserves_load alloc_write2)

lemma preserves_write_layer [simp]: "obj_layers n \<in> A \<Longrightarrow> preserves A (write_layer n k l)"
  by (auto simp: preserves_def write_layer_def grows_def nth_list_update split: if_splits)

lemma preserves_if:
  "preserves A m \<Longrightarrow> preserves A m' \<Longrightarrow> preserves A (if c then m else m')"
  by simp

lemma preserves_Calc_body_st [simp]: "preserves A (Calc_body_st n inputs act k)"
  unfolding Calc_body_st_def
  by (intro preserves_if preserves_bindS preserves_read_layer preserves_dot_st preserves_add_st
        preserves_fun_mat_st preserves_returnS)

lemma preserves_Calc_st [simp]: "preserves A (Calc_st n data)"
  unfolding Calc_st_def
  by (intro preserves_if preserves_bindS preserves_foldSt preserves_Calc_body_st
        preserves_NewDense_st preserves_load preserves_returnS preserves_liftE)

lemma preserves_case_prod:
  "(\<And>a b. preserves A (f a b)) \<Longrightarrow> preserves A (case p of (a, b) \<Rightarrow> f a b)"
  by (cases p) simp

lemma preserves_forward_body_st [simp]: "preserves A (forward_body_st n input s k)"
  unfolding forward_body_st_def
  by (intro preserves_case_prod preserves_if preserves_bindS preserves_read_layer preserves_dot_st
        preserves_add_st preserves_fun_mat_st preserves_returnS preserves_liftE)

lemma preserves_backward_body_st [simp]:
  "obj_layers n \<in> A \<Longrightarrow> preserves A (backward_body_st n input zs acts le k)"
  unfolding backward_body_st_def
  by (intro preserves_if preserves_bindS preserves_read_layer preserves_dot_st preserves_mul_st
        preserves_scl_st preserves_add_st preserves_fun_mat_st preserves_returnS preserves_liftE
        preserves_T_st preserves_write_layer)

lemma preserves_backpropagate_st [simp]:
  "obj_layers n \<in> A \<Longrightarrow> preserves A (backpropagate_st n xs ys)"
  unfolding backpropagate_st_def
  by (intro preserves_if preserves_bindS preserves_case_prod preserves_foldSt
        preserves_forward_body_st preserves_backward_body_st preserves_NewDense_st
        preserves_sub_st preserves_returnS preserves_liftE)

lemma preserves_Perturb_st [simp]:
  "obj_layers n \<in> A \<Longrightarrow> preserves A (Perturb_st n strength rnd)"
  unfolding Perturb_st_def Perturb_body_st_def
  by (intro preserves_foldSt preserves_bindS preserves_case_prod preserves_read_layer
        preserves_load preserves_NewDense_st preserves_add_st preserves_write_layer
        preserves_returnS preserves_liftE)

lemma preserves_Train_st [simp]:
  "obj_layers n \<in> A \<Longrightarrow> preserves A (Train_st n inputs expected epochs)"
  unfolding Train_st_def Train_epoch_st_def Train_example_st_def
  by (intro preserves_if preserves_foldSt preserves_bindS preserves_backpropagate_st
        preserves_Calc_st preserves_returnS preserves_liftE)

lemma preserves_Copy_st [simp]: "preserves A (Copy_st n)"
  by (auto simp: preserves_def Copy_st_def grows_def nth_append split: if_splits)

section \<open>The store: forward evaluation computes the same\<close>

lemma valid_ref_usable: "valid_ref s r \<Longrightarrow> usable s r"
  by (auto simp: valid_ref_def usable_def split: option.splits matref.splits)

lemma load_usable [simp]: "usable s r \<Longrightarrow> load r s = (Inr (deref s r), s)"
  by (auto simp: usable_def load_def deref_def split: option.splits matref.splits)

lemma load_None [simp]: "load None s = (Inl NilDereference, s)"
  by (simp add: load_def)

lemma usable_grows: "grows A s s' \<Longrightarrow> usable s r \<Longrightarrow> usable s' r \<and> deref s' r = deref s r"
  by (auto simp: grows_def usable_def deref_def split: option.splits matref.splits)

lemma bindS_Inr: "m s = (Inr x, s1) \<Longrightarrow> bindS m f s = f x s1"
  by (simp add: bindS_def)

lemma bindS_Inl: "fst (m s) = Inl e \<Longrightarrow> fst (bindS m f s) = Inl e"
  by (cases "m s") (simp add: bindS_def)

lemma fresh_ref [simp]:
  "usable (s\<lparr>dense := dense s @ [v]\<rparr>) (Some (Ref (length (dense s))))"
  "deref (s\<lparr>dense := dense s @ [v]\<rparr>) (Some (Ref (length (dense s)))) = v"
  by (simp_all add: usable_def deref_def)

lemma grows_alloc [simp]: "grows A s (s\<lparr>dense := dense s @ [v]\<rparr>)"
  by (simp add: grows_def nth_append)

text \<open>A wrapper on the store computes what the wrapper on values computes.\<close>

lemma wrapper_core:
  "bindS (NewDense_st r c None) (\<lambda>res. bindS (load res) (\<lambda>z.
     bindS (liftE (op z)) (\<lambda>v. bindS (write_dense res v) (\<lambda>u. returnS res)))) s =
   (case NewDense r c None of
      Inl e \<Rightarrow> (Inl e, s)
    | Inr z \<Rightarrow> (case op z of
                 Inl e \<Rightarrow> (Inl e, s\<lparr>dense := dense s @ [z]\<rparr>)
               | Inr v \<Rightarrow> (Inr (Some (Ref (length (dense s)))), s\<lparr>dense := dense s @ [v]\<rparr>)))"
  by (auto simp: bindS_def NewDense_st_def load_def liftE_def write_dense_def returnS_def
        split: sum.splits)

lemma wrapper_core2:
  "usable s n \<Longrightarrow>
   bindS (NewDense_st r c None) (\<lambda>res. bindS (load n) (\<lambda>b. bindS (load res) (\<lambda>z.
     bindS (liftE (op z b)) (\<lambda>v. bindS (write_dense res v) (\<lambda>u. returnS res))))) s =
   (case NewDense r c None of
      Inl e \<Rightarrow> (Inl e, s)
    | Inr z \<Rightarrow> (case op z (deref s n) of
                 Inl e \<Rightarrow> (Inl e, s\<lparr>dense := dense s @ [z]\<rparr>)
               | Inr v \<Rightarrow> (Inr (Some (Ref (length (dense s)))), s\<lparr>dense := dense s @ [v]\<rparr>)))"
  by (auto simp: bindS_def NewDense_st_def load_def liftE_def write_dense_def returnS_def
        usable_def deref_def nth_append split: sum.splits option.splits matref.splits)

lemma dot_st_sim:
  assumes "usable s m" "usable s n"
  shows "fst (dot_st m n s) = map_sum id (\<lambda>v. Some (Ref (length (dense s)))) (dot (deref s m) (deref s n))"
    and "dot (deref s m) (deref s n) = Inr v \<Longrightarrow>
           dot_st m n s = (Inr (Some (Ref (length (dense s)))), s\<lparr>dense := dense s @ [v]\<rparr>)"
  using assms
  by (auto simp: dot_st_def dot_def bindS_Inr[OF load_usable] wrapper_core bindE_def split: sum.splits)

lemma add_st_sim:
  assumes "usable s m" "usable s n"
  shows "fst (add_st m n s) = map_sum id (\<lambda>v. Some (Ref (length (dense s)))) (add (deref s m) (deref s n))"
    and "add (deref s m) (deref s n) = Inr v \<Longrightarrow>
           add_st m n s = (Inr (Some (Ref (length (dense s)))), s\<lparr>dense := dense s @ [v]\<rparr>)"
  using assms
  by (auto simp: add_st_def add_def bindS_Inr[OF load_usable] wrapper_core2 bindE_def split: sum.splits)

lemma fun_mat_st_sim:
  assumes "usable s m"
  shows "fst (fun_mat_st fn m s) = map_sum id (\<lambda>v. Some (Ref (length (dense s)))) (fun_mat fn (deref s m))"
    and "fun_mat fn (deref s m) = Inr v \<Longrightarrow>
           fun_mat_st fn m s = (Inr (Some (Ref (length (dense s)))), s\<lparr>dense := dense s @ [v]\<rparr>)"
  using assms
  by (auto simp: fun_mat_st_def fun_mat_def bindS_Inr[OF load_usable] wrapper_core bindE_def split: sum.splits)

lemma layer_step_sim:
  fixes fn :: "int \<Rightarrow> int \<Rightarrow> real \<Rightarrow> real"
    and H :: "Dense \<Rightarrow> Dense \<Rightarrow> error + 'v"
    and K :: "matref option \<Rightarrow> matref option \<Rightarrow> 'r st"
    and s :: store and w b x :: "matref option"
  assumes u: "usable s w" "usable s b" "usable s x"
  defines "val \<equiv> bindE (dot (deref s w) (deref s x)) (\<lambda>wx. bindE (add wx (deref s b))
                   (\<lambda>z. bindE (fun_mat fn z) (\<lambda>a. H z a)))"
  defines "run \<equiv> bindS (dot_st w x) (\<lambda>wx. bindS (add_st wx b)
                   (\<lambda>z. bindS (fun_mat_st fn z) (\<lambda>a. K z a)))"
  shows "(\<exists>e. val = Inl e \<and> fst (run s) = Inl e) \<or>
         (\<exists>zr ar s'. grows A s s' \<and> usable s' zr \<and> usable s' ar \<and>
             val = H (deref s' zr) (deref s' ar) \<and> run s = K zr ar s')"
proof (cases "dot (deref s w) (deref s x)")
  case (Inl e)
  then have "fst (dot_st w x s) = Inl e" using dot_st_sim(1)[OF u(1,3)] by simp
  then have "fst (run s) = Inl e" unfolding run_def by (rule bindS_Inl)
  with Inl show ?thesis by (simp add: val_def)
next
  case (Inr wx)
  let ?s1 = "s\<lparr>dense := dense s @ [wx]\<rparr>"
  let ?r1 = "Some (Ref (length (dense s)))"
  note d0 = dot_st_sim(2)[OF u(1,3) Inr]
  note d = bindS_Inr[where m="dot_st w x" and s=s, OF d0]
  have g1: "grows A s ?s1" by simp
  from usable_grows[OF g1 u(2)] have b1: "usable ?s1 b" "deref ?s1 b = deref s b" by simp_all
  have r1: "usable ?s1 ?r1" "deref ?s1 ?r1 = wx" by simp_all
  show ?thesis
  proof (cases "add wx (deref s b)")
    case (Inl e)
    then have "fst (add_st ?r1 b ?s1) = Inl e" using add_st_sim(1)[OF r1(1) b1(1)] r1(2) b1(2) by simp
    then have "fst (run s) = Inl e" unfolding run_def d by (rule bindS_Inl)
    with Inl \<open>dot (deref s w) (deref s x) = Inr wx\<close> show ?thesis by (simp add: val_def)
  next
    case z: (Inr z)
    let ?s2 = "?s1\<lparr>dense := dense ?s1 @ [z]\<rparr>"
    let ?r2 = "Some (Ref (length (dense ?s1)))"
    have "add (deref ?s1 ?r1) (deref ?s1 b) = Inr z" using z r1(2) b1(2) by simp
    note a0 = add_st_sim(2)[OF r1(1) b1(1) this]
    note a = bindS_Inr[where m="add_st ?r1 b" and s="?s1", OF a0]
    have g2: "grows A ?s1 ?s2" by (rule grows_alloc)
    have r2: "usable ?s2 ?r2" "deref ?s2 ?r2 = z" by (rule fresh_ref)+
    show ?thesis
    proof (cases "fun_mat fn z")
      case (Inl e)
      then have "fst (fun_mat_st fn ?r2 ?s2) = Inl e" using fun_mat_st_sim(1)[OF r2(1)] r2(2) by simp
      then have "fst (run s) = Inl e" unfolding run_def d a by (rule bindS_Inl)
      with Inl z \<open>dot (deref s w) (deref s x) = Inr wx\<close> show ?thesis by (simp add: val_def)
    next
      case av: (Inr av)
      let ?s3 = "?s2\<lparr>dense := dense ?s2 @ [av]\<rparr>"
      let ?r3 = "Some (Ref (length (dense ?s2)))"
      have "fun_mat fn (deref ?s2 ?r2) = Inr av" using av r2(2) by simp
      note f0 = fun_mat_st_sim(2)[OF r2(1) this]
      note f = bindS_Inr[where m="fun_mat_st fn ?r2" and s="?s2", OF f0]
      have g3: "grows A ?s2 ?s3" by (rule grows_alloc)
      have r3: "usable ?s3 ?r3" "deref ?s3 ?r3 = av" by (rule fresh_ref)+
      from usable_grows[OF g3 r2(1)] r2(2) have r2': "usable ?s3 ?r2" "deref ?s3 ?r2 = z" by simp_all
      have g: "grows A s ?s3" using grows_trans[OF grows_trans[OF g1 g2] g3] .
      have run: "run s = K ?r2 ?r3 ?s3"
        unfolding run_def d a f ..
      have val: "val = H z av"
        using av z \<open>dot (deref s w) (deref s x) = Inr wx\<close> by (simp add: val_def)
      show ?thesis
        apply (rule disjI2)
        apply (rule exI[of _ ?r2], rule exI[of _ ?r3], rule exI[of _ ?s3])
        using g r2' r3 run val by simp
    qed
  qed
qed

lemma valid_net_layer:
  assumes "valid_net s n" "k < length (layer_arrays s ! obj_layers n)"
  shows "valid_ref s (weights_ref (layer_arrays s ! obj_layers n ! k))"
    and "valid_ref s (biases_ref (layer_arrays s ! obj_layers n ! k))"
  using assms by (simp_all add: valid_net_def list_all_length)

lemma valid_ref_grows: "grows A s s' \<Longrightarrow> valid_ref s r \<Longrightarrow> valid_ref s' r \<and> deref s' r = deref s r"
  by (auto simp: grows_def valid_ref_def deref_def split: option.splits matref.splits)

lemma view_grows:
  assumes g: "grows A s s'" and v: "valid_net s n" and a: "obj_layers n \<notin> A"
  shows "view s' n = view s n" and "valid_net s' n"
proof -
  from v have l: "obj_layers n < length (layer_arrays s)" by (simp add: valid_net_def)
  with g a have arr: "layer_arrays s' ! obj_layers n = layer_arrays s ! obj_layers n"
    and l': "obj_layers n < length (layer_arrays s')" by (auto simp: grows_def)
  have each: "valid_ref s' (weights_ref lo) \<and> valid_ref s' (biases_ref lo) \<and>
       deref s' (weights_ref lo) = deref s (weights_ref lo) \<and>
       deref s' (biases_ref lo) = deref s (biases_ref lo)"
    if "lo \<in> set (layer_arrays s ! obj_layers n)" for lo
  proof -
    from v that have "valid_ref s (weights_ref lo)" "valid_ref s (biases_ref lo)"
      by (auto simp: valid_net_def list_all_iff)
    with valid_ref_grows[OF g] show ?thesis by blast
  qed
  show "view s' n = view s n"
    unfolding view_def arr using each by (auto intro!: map_cong)
  show "valid_net s' n"
    unfolding valid_net_def arr using l' each by (auto simp: list_all_iff)
qed

lemma read_layer_valid:
  "valid_net s n \<Longrightarrow> read_layer n k s = (idx (layer_arrays s ! obj_layers n) k, s)"
  by (simp add: read_layer_def valid_net_def)

lemma idx_map: "idx (map f xs) k = map_sum id f (idx xs k)"
  by (auto simp: idx_def nat_less_iff)

lemma layers_view:
  "layers (view s n) =
     map (\<lambda>l. \<lparr>weights = deref s (weights_ref l), biases = deref s (biases_ref l)\<rparr>)
       (layer_arrays s ! obj_layers n)"
  by (simp add: view_def)

lemma Calc_body_sim:
  assumes v: "valid_net s n" and ui: "usable s inputs" and ar: "act_rel s r a"
  shows "(\<exists>e. Calc_body (view s n) (deref s inputs) a k = Inl e \<and>
              fst (Calc_body_st n inputs r k s) = Inl e) \<or>
         (\<exists>r' s'. grows A s s' \<and> usable s' r' \<and>
              Calc_body (view s n) (deref s inputs) a k = Inr (Some (deref s' r')) \<and>
              Calc_body_st n inputs r k s = (Inr r', s'))"
proof (cases "idx (layer_arrays s ! obj_layers n) (int k)")
  case (Inl e)
  then have "fst (read_layer n (int k) s) = Inl e" by (simp add: read_layer_valid[OF v])
  then have "fst (Calc_body_st n inputs r k s) = Inl e"
    unfolding Calc_body_st_def by (auto intro: bindS_Inl)
  moreover from Inl have "idx (layers (view s n)) (int k) = Inl e"
    by (simp add: layers_view idx_map)
  then have "Calc_body (view s n) (deref s inputs) a k = Inl e"
    by (cases "k = 0") (simp_all add: Calc_body_def)
  ultimately show ?thesis by blast
next
  case (Inr lo)
  then have k: "k < length (layer_arrays s ! obj_layers n)" and lo: "lo = layer_arrays s ! obj_layers n ! k"
    by (auto simp: idx_def split: if_splits)
  from valid_net_layer[OF v k] lo have uw: "usable s (weights_ref lo)" and ub: "usable s (biases_ref lo)"
    by (simp_all add: valid_ref_usable)
  have rl: "read_layer n (int k) s = (Inr lo, s)" using Inr by (simp add: read_layer_valid[OF v])
  note rb = bindS_Inr[where m="read_layer n (int k)" and s=s, OF rl]
  have rb0: "k = 0 \<Longrightarrow> bindS (read_layer n 0) f s = f lo s" for f :: "layer_obj \<Rightarrow> matref option st"
    using rb[of f] by simp
  have il: "idx (layers (view s n)) (int k) =
      Inr \<lparr>weights = deref s (weights_ref lo), biases = deref s (biases_ref lo)\<rparr>"
    using Inr by (simp add: layers_view idx_map)
  then have il0: "k = 0 \<Longrightarrow> idx (layers (view s n)) 0 =
      Inr \<lparr>weights = deref s (weights_ref lo), biases = deref s (biases_ref lo)\<rparr>"
    by simp
  show ?thesis
  proof (cases "k \<noteq> 0 \<and> r = None")
    case True
    with ar have a: "a = None" by (auto simp: act_rel_def usable_def)
    have "fst (dot_st (weights_ref lo) None s) = Inl NilDereference"
      unfolding dot_st_def bindS_Inr[where m="load (weights_ref lo)" and s=s, OF load_usable[OF uw]]
      by (rule bindS_Inl) simp
    then have "fst (Calc_body_st n inputs r k s) = Inl NilDereference"
      using True unfolding Calc_body_st_def by (simp add: rb rb0) (rule bindS_Inl)
    moreover have "Calc_body (view s n) (deref s inputs) a k = Inl NilDereference"
      using True a by (simp add: Calc_body_def il)
    ultimately show ?thesis by blast
  next
    case False
    define x where "x = (if k = 0 then inputs else r)"
    from False ar ui have ux: "usable s x" by (auto simp: x_def act_rel_def)
    have val: "Calc_body (view s n) (deref s inputs) a k =
       bindE (dot (deref s (weights_ref lo)) (deref s x)) (\<lambda>wx. bindE (add wx (deref s (biases_ref lo)))
                   (\<lambda>z. bindE (fun_mat sigmoid z) (\<lambda>a. Inr (Some a))))"
      using False ar by (auto simp: Calc_body_def il il0 x_def act_rel_def usable_def)
    have run: "Calc_body_st n inputs r k s =
       bindS (dot_st (weights_ref lo) x) (\<lambda>wx. bindS (add_st wx (biases_ref lo))
                   (\<lambda>z. bindS (fun_mat_st sigmoid z) (\<lambda>a. returnS a))) s"
      by (simp add: Calc_body_st_def rb rb0 x_def)
    from layer_step_sim[OF uw ub ux, of sigmoid "\<lambda>z a. Inr (Some a)" "\<lambda>z a. returnS a" A]
    show ?thesis unfolding val run by (auto simp: returnS_def)
  qed
qed

lemma Calc_loop_sim:
  assumes v: "valid_net s n" and ui: "usable s inputs" and ar: "act_rel s r a"
  shows "(\<exists>e. foldE (Calc_body (view s n) (deref s inputs)) ks a = Inl e \<and>
              fst (foldSt (Calc_body_st n inputs) ks r s) = Inl e) \<or>
         (\<exists>r' s' a'. grows {} s s' \<and> act_rel s' r' a' \<and>
              foldE (Calc_body (view s n) (deref s inputs)) ks a = Inr a' \<and>
              foldSt (Calc_body_st n inputs) ks r s = (Inr r', s'))"
  using assms
proof (induction ks arbitrary: s r a)
  case Nil
  then show ?case by (auto simp: returnS_def)
next
  case (Cons k ks)
  from Calc_body_sim[OF Cons.prems, of k "{}"]
  show ?case
  proof (elim disjE exE conjE)
    fix e assume "Calc_body (view s n) (deref s inputs) a k = Inl e"
      "fst (Calc_body_st n inputs r k s) = Inl e"
    then show ?thesis by (auto intro: bindS_Inl)
  next
    fix r1 s1
    assume g: "grows {} s s1" and u1: "usable s1 r1"
      and val: "Calc_body (view s n) (deref s inputs) a k = Inr (Some (deref s1 r1))"
      and run: "Calc_body_st n inputs r k s = (Inr r1, s1)"
    from view_grows[OF g Cons.prems(1)] have v1: "view s1 n = view s n" "valid_net s1 n" by simp_all
    from usable_grows[OF g Cons.prems(2)] have i1: "usable s1 inputs" "deref s1 inputs = deref s inputs"
      by simp_all
    have a1: "act_rel s1 r1 (Some (deref s1 r1))" using u1 by (simp add: act_rel_def)
    from Cons.IH[OF v1(2) i1(1) a1]
    show ?thesis
      unfolding v1(1) i1(2)
      using g grows_trans[OF g]
      by (auto simp: val bindS_Inr[where m="Calc_body_st n inputs r k" and s=s, OF run])
  qed
qed

lemma Calc_st_sim:
  assumes v: "valid_net s n"
  shows "fst (Calc_st n data s) = Calc (view s n) data"
proof (cases "int (length data) \<noteq> obj_i n")
  case True
  then show ?thesis by (simp add: Calc_st_def Calc_def liftE_def view_def)
next
  case False
  then have len: "int (length data) = obj_i n" by simp
  have i: "net_i (view s n) = obj_i n" "net_h (view s n) = obj_h n" by (simp_all add: view_def)
  show ?thesis
  proof (cases "NewDense (obj_i n) 1 (Some data)")
    case (Inl e)
    then have "fst (NewDense_st (obj_i n) 1 (Some data) s) = Inl e" by (simp add: NewDense_st_def)
    then have "fst (Calc_st n data s) = Inl e"
      unfolding Calc_st_def using len by (auto intro: bindS_Inl)
    with Inl len show ?thesis by (simp add: Calc_def i)
  next
    case (Inr m)
    let ?s1 = "s\<lparr>dense := dense s @ [m]\<rparr>"
    let ?r1 = "Some (Ref (length (dense s)))"
    have nd: "NewDense_st (obj_i n) 1 (Some data) s = (Inr ?r1, ?s1)"
      using Inr by (simp add: NewDense_st_def)
    note nb = bindS_Inr[where m="NewDense_st (obj_i n) 1 (Some data)" and s=s, OF nd]
    have g1: "grows {} s ?s1" by simp
    from view_grows[OF g1 v] have v1: "view ?s1 n = view s n" "valid_net ?s1 n" by simp_all
    have u1: "usable ?s1 ?r1" "deref ?s1 ?r1 = m" by simp_all
    have a0: "act_rel ?s1 None None" by (simp add: act_rel_def)
    have val: "Calc (view s n) data =
        bindE (foldE (Calc_body (view s n) m) [0..<nat (obj_h n)] None) (\<lambda>activation.
        case activation of
          None \<Rightarrow> Inl NilDereference
        | Some a \<Rightarrow> Inr (map (\<lambda>r. At a r 0) [0..<Rows a]))"
      using len Inr by (simp add: Calc_def i)
    have run: "Calc_st n data s =
        bindS (foldSt (Calc_body_st n ?r1) [0..<nat (obj_h n)] None) (\<lambda>activation.
        bindS (load activation) (\<lambda>a.
        returnS (map (\<lambda>r. At a r 0) [0..<Rows a]))) ?s1"
      using len by (simp add: Calc_st_def nb)
    from Calc_loop_sim[OF v1(2) u1(1) a0, of "[0..<nat (obj_h n)]"]
    show ?thesis unfolding v1(1) u1(2) val run
    proof (elim disjE exE conjE)
      fix e assume "foldE (Calc_body (view s n) m) [0..<nat (obj_h n)] None = Inl e"
        "fst (foldSt (Calc_body_st n ?r1) [0..<nat (obj_h n)] None ?s1) = Inl e"
      then show "fst (bindS (foldSt (Calc_body_st n ?r1) [0..<nat (obj_h n)] None) (\<lambda>activation.
        bindS (load activation) (\<lambda>a.
        returnS (map (\<lambda>r. At a r 0) [0..<Rows a]))) ?s1) =
        bindE (foldE (Calc_body (view s n) m) [0..<nat (obj_h n)] None) (\<lambda>activation.
        case activation of
          None \<Rightarrow> Inl NilDereference
        | Some a \<Rightarrow> Inr (map (\<lambda>r. At a r 0) [0..<Rows a]))"
        by (auto intro: bindS_Inl)
    next
      fix r' s' a'
      assume ar: "act_rel s' r' a'"
        and fv: "foldE (Calc_body (view s n) m) [0..<nat (obj_h n)] None = Inr a'"
        and fr: "foldSt (Calc_body_st n ?r1) [0..<nat (obj_h n)] None ?s1 = (Inr r', s')"
      note fb = bindS_Inr[where m="foldSt (Calc_body_st n ?r1) [0..<nat (obj_h n)] None" and s="?s1", OF fr]
      from ar show "fst (bindS (foldSt (Calc_body_st n ?r1) [0..<nat (obj_h n)] None) (\<lambda>activation.
        bindS (load activation) (\<lambda>a.
        returnS (map (\<lambda>r. At a r 0) [0..<Rows a]))) ?s1) =
        bindE (foldE (Calc_body (view s n) m) [0..<nat (obj_h n)] None) (\<lambda>activation.
        case activation of
          None \<Rightarrow> Inl NilDereference
        | Some a \<Rightarrow> Inr (map (\<lambda>r. At a r 0) [0..<Rows a]))"
        unfolding fb fv
        by (auto simp: act_rel_def bindS_def returnS_def)
    qed
  qed
qed

section \<open>Copies, purity of the forward pass, rejected sizes\<close>

lemma copy_slice_fresh [simp]: "copy_slice (replicate (length xs) d) xs = xs"
  by (simp add: copy_slice_def)

lemma valid_ref_arrays [simp]: "valid_ref (s\<lparr>layer_arrays := X\<rparr>) r = valid_ref s r"
  by (simp add: valid_ref_def split: option.splits matref.splits)

lemma deref_arrays [simp]: "deref (s\<lparr>layer_arrays := X\<rparr>) r = deref s r"
  by (simp add: deref_def split: option.splits matref.splits)

lemma Copy_st_valid:
  assumes "valid_net s n"
  shows "\<exists>m s1. Copy_st n s = (Inr m, s1) \<and> grows {} s s1 \<and> valid_net s1 m \<and>
           view s1 m = view s n \<and> obj_layers m \<noteq> obj_layers n \<and>
           obj_layers m < length (layer_arrays s1) \<and>
           layer_arrays s1 ! obj_layers m = layer_arrays s ! obj_layers n"
proof -
  from assms have l: "obj_layers n < length (layer_arrays s)" by (simp add: valid_net_def)
  let ?m = "\<lparr>obj_i = obj_i n, obj_o = obj_o n, obj_h = obj_h n, obj_hidden = obj_hidden n,
             obj_layers = length (layer_arrays s), obj_learnRate = obj_learnRate n\<rparr>"
  let ?s1 = "s\<lparr>layer_arrays := layer_arrays s @ [layer_arrays s ! obj_layers n]\<rparr>"
  have c: "Copy_st n s = (Inr ?m, ?s1)" using l by (simp add: Copy_st_def)
  have g: "grows {} s ?s1" by (simp add: grows_def nth_append)
  have v: "valid_net ?s1 ?m" using assms
    by (simp add: valid_net_def)
  have w: "view ?s1 ?m = view s n"
    by (simp add: view_def)
  show ?thesis using c g v w l by (intro exI[of _ ?m] exI[of _ ?s1]) simp
qed

text \<open>
  Claim C7. \<open>Copy\<close> returns a network object that stands for the same network as the
  source, so \<open>Calc\<close> gives the same output on both for every input. The copy has its own
  layer array but its layers point to the matrix objects of the source. All the same, no
  call of \<open>backpropagate\<close> or \<open>Perturb\<close> on the copy, whether it returns or panics, changes
  any weight or bias matrix of the source, and no such call on the source changes any of
  the copy: these operations assign new matrix objects to the layers of their own array
  and write into no existing object.
\<close>

theorem Copy_independent:
  assumes "valid_net s n"
  shows "\<exists>m s1. Copy_st n s = (Inr m, s1) \<and> valid_net s1 m \<and>
           view s1 m = view s n \<and> view s1 n = view s n \<and>
           (\<forall>data. fst (Calc_st m data s1) = fst (Calc_st n data s1)) \<and>
           (\<forall>xs ys r s2. backpropagate_st m xs ys s1 = (r, s2) \<longrightarrow>
               view s2 n = view s n) \<and>
           (\<forall>strength rnd r s2. Perturb_st m strength rnd s1 = (r, s2) \<longrightarrow>
               view s2 n = view s n) \<and>
           (\<forall>xs ys r s2. backpropagate_st n xs ys s1 = (r, s2) \<longrightarrow>
               view s2 m = view s n) \<and>
           (\<forall>strength rnd r s2. Perturb_st n strength rnd s1 = (r, s2) \<longrightarrow>
               view s2 m = view s n)"
proof -
  from Copy_st_valid[OF assms] obtain m s1 where
    c: "Copy_st n s = (Inr m, s1)" and g: "grows {} s s1" and vm: "valid_net s1 m"
    and wm: "view s1 m = view s n" and ne: "obj_layers m \<noteq> obj_layers n"
    by blast
  from view_grows[OF g assms] have wn: "view s1 n = view s n" and vn: "valid_net s1 n" by simp_all
  have calc: "fst (Calc_st m data s1) = fst (Calc_st n data s1)" for data
    by (simp add: Calc_st_sim[OF vm] Calc_st_sim[OF vn] wm wn)
  have frame: "view s2 a = view s1 a"
    if "preserves {obj_layers b} f" "f s1 = (r, s2)" "valid_net s1 a" "obj_layers a \<noteq> obj_layers b"
    for f :: "'x st" and r s2 a b
  proof -
    from that(1,2) have "grows {obj_layers b} s1 s2" by (simp add: preserves_def)
    from view_grows(1)[OF this that(3)] that(4) show ?thesis by simp
  qed
  have 1: "view s2 n = view s n" if "backpropagate_st m xs ys s1 = (r, s2)" for xs ys r s2
    using frame[where f="backpropagate_st m xs ys" and b=m, OF _ that vn ne[symmetric]] wn by simp
  have 2: "view s2 n = view s n" if "Perturb_st m strength rnd s1 = (r, s2)" for strength rnd r s2
    using frame[where f="Perturb_st m strength rnd" and b=m, OF _ that vn ne[symmetric]] wn by simp
  have 3: "view s2 m = view s n" if "backpropagate_st n xs ys s1 = (r, s2)" for xs ys r s2
    using frame[where f="backpropagate_st n xs ys" and b=n, OF _ that vm ne] wm by simp
  have 4: "view s2 m = view s n" if "Perturb_st n strength rnd s1 = (r, s2)" for strength rnd r s2
    using frame[where f="Perturb_st n strength rnd" and b=n, OF _ that vm ne] wm by simp
  show ?thesis
    apply (rule exI[of _ m], rule exI[of _ s1])
    using c vm wm wn calc 1 2 3 4 by blast
qed

lemma valid_obj221: "valid_net store221 obj221"
  by (simp add: valid_net_def store221_def obj221_def valid_ref_def)

lemma view_obj221: "view store221 obj221 = net221"
  by (simp add: view_def store221_def obj221_def net221_def deref_def)

text \<open>
  Claim C9. \<open>Calc\<close> with an input whose length is not \<open>inputSize\<close>, and \<open>Train\<close> with lists
  of inputs and of expected outputs of different lengths, panic with \<open>errInvalidDataSize\<close>
  and leave the store, hence every weight and bias matrix, as it was.
\<close>

theorem wrong_length_rejected:
  "(int (length data) \<noteq> obj_i n \<longrightarrow>
      Calc_st n data s = (Inl errInvalidDataSize, s) \<and>
      Calc (view s n) data = Inl errInvalidDataSize) \<and>
   (length inputs \<noteq> length expected \<longrightarrow>
      Train_st n inputs expected epochs s = (Inl errInvalidDataSize, s) \<and>
      Train (view s n) inputs expected epochs = (Some errInvalidDataSize, view s n, []))"
  by (simp add: Calc_st_def Calc_def Train_st_def Train_def liftE_def view_def)

theorem Copy_independent_witness:
  "valid_net store221 obj221 \<and>
   (\<exists>m s1. Copy_st obj221 store221 = (Inr m, s1) \<and> valid_net s1 m \<and>
           view s1 m = view store221 obj221 \<and> view s1 obj221 = view store221 obj221 \<and>
           (\<forall>data. fst (Calc_st m data s1) = fst (Calc_st obj221 data s1)) \<and>
           (\<forall>xs ys r s2. backpropagate_st m xs ys s1 = (r, s2) \<longrightarrow>
               view s2 obj221 = view store221 obj221) \<and>
           (\<forall>strength rnd r s2. Perturb_st m strength rnd s1 = (r, s2) \<longrightarrow>
               view s2 obj221 = view store221 obj221) \<and>
           (\<forall>xs ys r s2. backpropagate_st obj221 xs ys s1 = (r, s2) \<longrightarrow>
               view s2 m = view store221 obj221) \<and>
           (\<forall>strength rnd r s2. Perturb_st obj221 strength rnd s1 = (r, s2) \<longrightarrow>
               view s2 m = view store221 obj221))"
  using Copy_independent[OF valid_obj221] valid_obj221 by (intro conjI)

theorem wrong_length_rejected_witness:
  "int (length ([] :: real list)) \<noteq> obj_i obj221 \<and>
   Calc_st obj221 [] store221 = (Inl errInvalidDataSize, store221) \<and>
   Calc (view store221 obj221) [] = Inl errInvalidDataSize \<and>
   length [[1, 0 :: real]] \<noteq> length ([] :: real list list) \<and>
   Train_st obj221 [[1, 0]] [] 1 store221 = (Inl errInvalidDataSize, store221) \<and>
   Train (view store221 obj221) [[1, 0]] [] 1 =
     (Some errInvalidDataSize, view store221 obj221, [])"
proof -
  have a: "int (length ([] :: real list)) \<noteq> obj_i obj221" by (simp add: obj221_def)
  have b: "length [[1, 0 :: real]] \<noteq> length ([] :: real list list)" by simp
  from wrong_length_rejected[of "[]" obj221 store221 "[[1, 0]]" "[]" 1] a b
  show ?thesis by blast
qed

section \<open>Persistence\<close>

lemma newLayer_zero:
  "0 < a \<Longrightarrow> 0 < b \<Longrightarrow>
   newLayer a b False rnd = Inr (\<lparr>weights = zeros (nat a) (nat b), biases = zeros (nat a) 1\<rparr>, rnd)"
  by (simp add: newLayer_def NewDense_def zeros_def)

lemma idx_pred: "0 < k \<Longrightarrow> k \<le> length xs \<Longrightarrow> idx xs (int k - 1) = Inr (xs ! (k - 1))"
proof -
  assume a: "0 < k" "k \<le> length xs"
  then have "nat (int k - 1) = k - 1" by linarith
  with a show ?thesis by (simp add: idx_def)
qed

lemma NewNetwork_body_zero:
  assumes "sizes_ok inputs outputs hid" "k \<le> length hid"
  shows "NewNetwork_body inputs outputs hid False (ls, rnd) k =
           Inr (ls @ [zero_layer inputs outputs hid k], rnd)"
proof -
  from assms(1) have ne: "hid \<noteq> []" and pi: "0 < inputs" and po: "0 < outputs"
    and ph: "\<And>j. j < length hid \<Longrightarrow> 0 < hid ! j"
    by (auto simp: sizes_ok_def list_all_length)
  consider "k = 0" | "k \<noteq> 0" "k = length hid" | "k \<noteq> 0" "k < length hid"
    using assms(2) by linarith
  then show ?thesis
  proof cases
    case 1
    with ne have i: "idx hid (int k) = Inr (hid ! 0)" by (simp add: idx_def)
    from ne have "0 < hid ! 0" using ph[of 0] by simp
    from newLayer_zero[OF this pi] 1 ne i show ?thesis
      by (simp add: NewNetwork_body_def zero_layer_def)
  next
    case 2
    then have k1: "k - 1 < length hid" by simp
    from 2 have i: "idx hid (int k - 1) = Inr (hid ! (k - 1))"
      by (intro idx_pred) simp_all
    from newLayer_zero[OF po ph[OF k1]] 2 i show ?thesis
      by (simp add: NewNetwork_body_def zero_layer_def)
  next
    case 3
    then have k1: "k - 1 < length hid" by simp
    from 3 have i: "idx hid (int k - 1) = Inr (hid ! (k - 1))" "idx hid (int k) = Inr (hid ! k)"
      by (simp_all add: idx_pred)
    from newLayer_zero[OF ph[OF 3(2)] ph[OF k1]] 3 i show ?thesis
      by (simp add: NewNetwork_body_def zero_layer_def)
  qed
qed

lemma foldE_snoc: "foldE f (xs @ [k]) s = bindE (foldE f xs s) (\<lambda>s'. f s' k)"
  by (induction xs arbitrary: s) (simp_all add: bindE_def split: sum.splits)

lemma NewNetwork_loop_zero:
  assumes "sizes_ok inputs outputs hid" "j \<le> length hid + 1"
  shows "foldE (NewNetwork_body inputs outputs hid False) [0..<j] ([], rnd) =
           Inr (map (zero_layer inputs outputs hid) [0..<j], rnd)"
  using assms(2)
proof (induction j)
  case 0 show ?case by simp
next
  case (Suc j)
  then have "j \<le> length hid" by simp
  from NewNetwork_body_zero[OF assms(1) this] Suc show ?case
    by (simp add: foldE_snoc)
qed

lemma NewNetwork_zero:
  assumes "sizes_ok inputs outputs hid"
  shows "NewNetwork inputs outputs hid learn False rnd =
           Inr (zero_network inputs outputs hid learn, rnd)"
  using NewNetwork_loop_zero[OF assms, of "length hid + 1" rnd]
  by (simp add: NewNetwork_def zero_network_def)

declare show_nat.simps [simp del]

lemma of_char_digit: "d < 10 \<Longrightarrow> of_char (digit d) = 48 + d"
  by (simp add: digit_def)

lemma read_show_nat: "read_nat (show_nat n) = n"
proof (induction n rule: show_nat.induct)
  case (1 n)
  show ?case
  proof (cases "n < 10")
    case True
    then show ?thesis by (subst show_nat.simps) (simp add: read_nat_def of_char_digit)
  next
    case False
    have m: "n mod 10 < 10" by simp
    from 1[OF False] have "read_nat (show_nat (n div 10)) = n div 10" .
    then show ?thesis using False
      by (subst show_nat.simps) (simp add: read_nat_def of_char_digit[OF m])
  qed
qed

lemma show_nat_inj: "show_nat a = show_nat b \<Longrightarrow> a = b"
  using read_show_nat by metis

lemma names_distinct [simp]:
  "wname a = wname b \<longleftrightarrow> a = b" "bname a = bname b \<longleftrightarrow> a = b"
  "wname a \<noteq> bname b" "bname a \<noteq> wname b"
  "wname a \<noteq> ''meta.json''" "bname a \<noteq> ''meta.json''"
proof -
  show "wname a = wname b \<longleftrightarrow> a = b" "bname a = bname b \<longleftrightarrow> a = b"
    using show_nat_inj by (auto simp: wname_def bname_def)
  have e: "xs @ us = ys @ vs \<longleftrightarrow> xs = ys \<and> us = vs" if "length us = length vs"
    for xs ys us vs :: string
    using that by simp
  show "wname a \<noteq> bname b" "bname a \<noteq> wname b"
    unfolding wname_def bname_def by (simp_all add: e)
  have m: "''meta.json'' = ''meta'' @ ''.json''" by simp
  have "show_nat a @ ''w.bin'' \<noteq> ''meta'' @ ''.json''"
    by (subst e) simp_all
  then show "wname a \<noteq> ''meta.json''" unfolding wname_def m .
  have "show_nat a @ ''b.bin'' \<noteq> ''meta'' @ ''.json''"
    by (subst e) simp_all
  then show "bname a \<noteq> ''meta.json''" unfolding bname_def m .
qed

lemma blobs_Suc: "blobs ls (Suc j) =
    blobs ls j @ [(wname j, Binary (weights (ls ! j))), (bname j, Binary (biases (ls ! j)))]"
  by (simp add: blobs_def)

lemma Save_loop:
  assumes "j \<le> length (layers n)"
  shows "foldE (Save_body n) [0..<j] init = Inr (init @ blobs (layers n) j)"
  using assms
proof (induction j)
  case 0 show ?case by (simp add: blobs_def)
next
  case (Suc j)
  then show ?case by (simp add: foldE_snoc Save_body_def blobs_Suc)
qed

lemma blobs_keys: "fst ` set (blobs ls j) = wname ` {..<j} \<union> bname ` {..<j}"
  by (induction j) (auto simp: blobs_Suc blobs_def lessThan_Suc)

lemma blobs_lookup:
  assumes "k < j"
  shows "map_of (blobs ls j) (wname k) = Some (Binary (weights (ls ! k)))"
    and "map_of (blobs ls j) (bname k) = Some (Binary (biases (ls ! k)))"
  using assms
proof (induction j)
  case 0
  { case 1 then show ?case by simp }
  { case 2 then show ?case by simp }
next
  case (Suc j)
  have nw: "map_of (blobs ls j) (wname j) = None" and nb: "map_of (blobs ls j) (bname j) = None"
    by (auto simp: map_of_eq_None_iff blobs_keys)
  { case 1
    then show ?case using Suc.IH(1) nw
      by (cases "k = j") (auto simp: blobs_Suc map_add_def split: option.splits) }
  { case 2
    then show ?case using Suc.IH(2) nb
      by (cases "k = j") (auto simp: blobs_Suc map_add_def split: option.splits) }
qed

lemma Load_loop_snoc:
  "Load_loop opts ar (xs @ [k]) ls =
     (case Load_loop opts ar xs ls of
        Inl e \<Rightarrow> Inl e
      | Inr (Inl err) \<Rightarrow> Inr (Inl err)
      | Inr (Inr ls') \<Rightarrow> Load_body opts ar ls' k)"
  by (induction xs arbitrary: ls) (auto split: sum.splits)

lemma layer_rebuild: "(l\<lparr>weights := weights m\<rparr>)\<lparr>biases := biases m\<rparr> = m" for l m :: layer
  by (cases l, cases m) simp

lemma Load_body_found:
  assumes "k < length ls" "k < length (opt_WPaths opts)" "k < length (opt_BPaths opts)"
    and "map_of ar (opt_WPaths opts ! k) = Some (Binary wm)"
    and "map_of ar (opt_BPaths opts ! k) = Some (Binary bm)"
  shows "Load_body opts ar ls k = Inr (Inr (ls[k := \<lparr>weights = wm, biases = bm\<rparr>]))"
proof -
  have r: "(ls ! k)\<lparr>weights := wm, biases := bm\<rparr> = \<lparr>weights = wm, biases = bm\<rparr>"
    by (cases "ls ! k") simp
  from assms show ?thesis by (simp add: Load_body_def r)
qed

lemma Load_loop_found:
  assumes len: "length Z = length L"
    and ent: "\<And>k. k < length L \<Longrightarrow>
        k < length (opt_WPaths opts) \<and> k < length (opt_BPaths opts) \<and>
        map_of ar (opt_WPaths opts ! k) = Some (Binary (weights (L ! k))) \<and>
        map_of ar (opt_BPaths opts ! k) = Some (Binary (biases (L ! k)))"
    and j: "j \<le> length L"
  shows "Load_loop opts ar [0..<j] Z = Inr (Inr (take j L @ drop j Z))"
  using j
proof (induction j)
  case 0 show ?case by simp
next
  case (Suc j)
  then have j: "j < length L" by simp
  let ?ls = "take j L @ drop j Z"
  have l: "j < length ?ls" using j len by simp
  from ent[OF j] have p: "j < length (opt_WPaths opts)" "j < length (opt_BPaths opts)"
    and w: "map_of ar (opt_WPaths opts ! j) = Some (Binary (weights (L ! j)))"
    and b: "map_of ar (opt_BPaths opts ! j) = Some (Binary (biases (L ! j)))" by simp_all
  have r: "\<lparr>weights = weights (L ! j), biases = biases (L ! j)\<rparr> = L ! j" by simp
  have u: "?ls[j := L ! j] = take (Suc j) L @ drop (Suc j) Z"
    using j len by (simp add: list_update_append take_Suc_conv_app_nth upd_conv_take_nth_drop)
  from Suc j have IH: "Load_loop opts ar [0..<j] Z = Inr (Inr ?ls)" by simp
  show ?case
    by (simp add: Load_loop_snoc IH Load_body_found[OF l p w b] r u)
qed

lemma Load_loop_roundtrip:
  assumes len: "length Z = length L" "nat (net_h n) = length L"
  shows "Load_loop (Save_options n) ((''meta.json'', c) # blobs L (length L)) [0..<length L] Z =
           Inr (Inr L)"
proof -
  have "k < length (opt_WPaths (Save_options n)) \<and> k < length (opt_BPaths (Save_options n)) \<and>
        map_of ((''meta.json'', c) # blobs L (length L)) (opt_WPaths (Save_options n) ! k) =
          Some (Binary (weights (L ! k))) \<and>
        map_of ((''meta.json'', c) # blobs L (length L)) (opt_BPaths (Save_options n) ! k) =
          Some (Binary (biases (L ! k)))" if "k < length L" for k
    using that len blobs_lookup[OF that, of L] by (simp add: Save_options_def)
  from Load_loop_found[OF len(1) this, of "length L"] len show ?thesis by simp
qed

lemma topology_sizes_ok:
  assumes "topology_ok n" "hidden n \<noteq> []"
  shows "sizes_ok (net_i n) (net_o n) (hidden n)"
proof -
  note p = topology_pos[OF assms(1)]
  from assms(1) have len: "length (layers n) = length (hidden n) + 1" by (simp add: topology_ok_def)
  have "0 < hidden n ! k" if "k < length (hidden n)" for k
  proof -
    from that len have k: "k < length (layers n)" "k \<noteq> length (hidden n)" by simp_all
    from topology_layer[OF assms(1) k(1)] k(2)
    have "int (Rows (weights (layers n ! k))) = hidden n ! k" "0 < Rows (weights (layers n ! k))"
      by (simp_all add: layer_ok_def Let_def wf_dense_def)
    then show ?thesis by linarith
  qed
  then show ?thesis using assms(2) p(1,2) by (simp add: sizes_ok_def list_all_length)
qed

lemma json_Marshal_Finite:
  "opt_Learn opts = Finite r \<Longrightarrow>
   json_Marshal opts =
     Inr (JSON \<lparr>opt_I = opt_I opts, opt_O = opt_O opts, opt_H = opt_H opts, opt_Learn = r,
                opt_WPaths = opt_WPaths opts, opt_BPaths = opt_BPaths opts\<rparr>)"
  by (simp add: json_Marshal_def)

lemma json_Marshal_unsupported:
  "\<forall>r. opt_Learn opts \<noteq> Finite r \<Longrightarrow> json_Marshal opts = Inl ErrUnsupportedValue"
  by (cases "opt_Learn opts") (simp_all add: json_Marshal_def)

lemma NewNetwork_hidden:
  "NewNetwork inputs outputs hid learn random rnd = Inr (n, rnd') \<Longrightarrow> hidden n \<noteq> []"
  by (cases hid) (auto simp: NewNetwork_def NewNetwork_body_def idx_def bindE_def
      split: sum.splits prod.splits)

text \<open>
  Claim C5, and where the code departs from it. For a network that satisfies the invariant
  of section 3 and has at least one hidden layer, as every network that \<open>NewNetwork\<close>
  returns has, and a path at which the file can be created, \<open>Save\<close> returns nil. When the
  learning rate is finite, \<open>Load\<close> from that path then returns nil and a network equal to
  the saved one in every field: sizes, hidden sizes, learning rate, and every weight and
  bias matrix entry for entry, so that \<open>Calc\<close>, which reads the sizes and the layers, gives
  the same output on both. When the learning rate is NaN or infinite, the claim fails:
  \<open>Save\<close> has written an empty \<open>meta.json\<close> and returns nil all the same, and \<open>Load\<close> returns
  the zero value of \<open>Network\<close> with an error. (The codecs are taken to be lossless, as the
  specification requires of them.)
\<close>

theorem Save_then_Load:
  fixes n :: "float64 Network_of"
  assumes "topology_ok n" and "hidden n \<noteq> []" and "filename \<notin> cannot_create fs"
  shows "\<exists>fs'. Save n filename fs = (Inr None, fs') \<and>
           (\<forall>r. learnRate n = Finite r \<longrightarrow> Load filename fs' rnd = Inr (rate_as n r, None)) \<and>
           ((\<forall>r. learnRate n \<noteq> Finite r) \<longrightarrow>
              Load filename fs' rnd = Inr (Network_zero, Some ErrJSON))"
proof -
  note p = topology_pos[OF assms(1)]
  from assms(1) have h: "net_h n = int (length (layers n))"
    and len: "length (layers n) = length (hidden n) + 1" by (simp_all add: topology_ok_def)
  let ?meta = "case json_Marshal (Save_options n) of Inl err \<Rightarrow> Other | Inr metaJson \<Rightarrow> metaJson"
  let ?ar = "(''meta.json'', ?meta) # blobs (layers n) (length (layers n))"
  let ?fs = "fs\<lparr>files := (files fs)(filename \<mapsto> ZipFile ?ar)\<rparr>"
  have sv: "Save n filename fs = (Inr None, ?fs)"
    using assms(3) h Save_loop[of "length (layers n)" n] by (simp add: Save_def)
  have fin: "Load filename ?fs rnd = Inr (rate_as n r, None)" if r: "learnRate n = Finite r" for r
  proof -
    let ?opts = "Save_options (rate_as n r)"
    have m: "?meta = JSON ?opts"
      using json_Marshal_Finite[of "Save_options n" r] r
      by (simp add: Save_options_def rate_as_def)
    let ?z = "zero_network (net_i n) (net_o n) (hidden n) r"
    have nn: "NewNetwork (net_i n) (net_o n) (hidden n) r False rnd = Inr (?z, rnd)"
      by (rule NewNetwork_zero[OF topology_sizes_ok[OF assms(1,2)]])
    have zl: "length (layers ?z) = length (layers n)" "nat (net_h ?z) = length (layers n)"
      using len by (simp_all add: zero_network_def)
    have hr: "nat (net_h (rate_as n r)) = length (layers n)" using p(4) by (simp add: rate_as_def)
    have loop: "Load_loop ?opts ((''meta.json'', JSON ?opts) # blobs (layers n) (length (layers n)))
        [0..<nat (net_h ?z)] (layers ?z) = Inr (Inr (layers n))"
      using Load_loop_roundtrip[OF zl(1) hr, of "JSON ?opts"] zl by simp
    have again: "?z\<lparr>layers := layers n\<rparr> = rate_as n r"
      using h len by (simp add: zero_network_def rate_as_def)
    have so: "opt_I ?opts = net_i n" "opt_O ?opts = net_o n"
      "opt_H ?opts = hidden n" "opt_Learn ?opts = r"
      by (simp_all add: Save_options_def rate_as_def)
    show ?thesis
      unfolding m by (simp add: Load_def so nn loop again)
  qed
  have inf: "Load filename ?fs rnd = Inr (Network_zero, Some ErrJSON)"
    if "\<forall>r. learnRate n \<noteq> Finite r"
  proof -
    from that have "\<forall>r. opt_Learn (Save_options n) \<noteq> Finite r" by (simp add: Save_options_def)
    from json_Marshal_unsupported[OF this] show ?thesis by (simp add: Load_def)
  qed
  from sv fin inf show ?thesis by blast
qed

lemma NewNetwork_h:
  "NewNetwork inputs outputs hid learn random rnd = Inr (n, rnd') \<Longrightarrow>
     net_h n = int (length (layers n))"
  by (auto simp: NewNetwork_def bindE_def split: sum.splits prod.splits)

lemma Load_body_cases:
  assumes "k < length ls" "k < length (opt_WPaths opts)" "k < length (opt_BPaths opts)"
  shows "(\<exists>err. Load_body opts ar ls k = Inr (Inl err)) \<or>
         (\<exists>ls'. Load_body opts ar ls k = Inr (Inr ls') \<and> length ls' = length ls \<and>
                map_of ar (opt_WPaths opts ! k) \<noteq> None \<and>
                map_of ar (opt_BPaths opts ! k) \<noteq> None)"
  using assms
  by (auto simp: Load_body_def split: option.splits content.splits)

lemma Load_loop_missing:
  assumes "length ls = h" "h \<le> length (opt_WPaths opts)" "h \<le> length (opt_BPaths opts)"
    and "set ks \<subseteq> {..<h}" "k \<in> set ks"
    and "map_of ar (opt_WPaths opts ! k) = None \<or> map_of ar (opt_BPaths opts ! k) = None"
  shows "\<exists>err. Load_loop opts ar ks ls = Inr (Inl err)"
  using assms(1,4,5)
proof (induction ks arbitrary: ls)
  case Nil then show ?case by simp
next
  case (Cons k0 ks)
  from Cons.prems(2) have k0: "k0 < h" by simp
  with Cons.prems(1) assms(2,3) have p: "k0 < length ls" "k0 < length (opt_WPaths opts)"
    "k0 < length (opt_BPaths opts)" by simp_all
  from Load_body_cases[OF p, of ar] show ?case
  proof (elim disjE exE conjE)
    fix err assume "Load_body opts ar ls k0 = Inr (Inl err)"
    then show ?thesis by simp
  next
    fix ls' assume b: "Load_body opts ar ls k0 = Inr (Inr ls')" and l: "length ls' = length ls"
      and f: "map_of ar (opt_WPaths opts ! k0) \<noteq> None" "map_of ar (opt_BPaths opts ! k0) \<noteq> None"
    from f assms(6) have "k \<noteq> k0" by auto
    with Cons.prems(3) have "k \<in> set ks" by simp
    moreover from Cons.prems(2) have "set ks \<subseteq> {..<h}" by simp
    moreover from l Cons.prems(1) have "length ls' = h" by simp
    ultimately have "\<exists>err. Load_loop opts ar ks ls' = Inr (Inl err)" by (intro Cons.IH)
    with b show ?thesis by simp
  qed
qed

text \<open>
  Claim C6, as amended. \<open>Load\<close> returns an error together with the zero value of \<open>Network\<close>,
  never a partly loaded network, when the archive has no metadata entry and, for metadata
  from which \<open>NewNetwork\<close> builds a network and which names a weight and a bias entry for
  every layer, when an entry named for some layer is missing. The dimensions of the
  decoded blobs are not compared with the topology: when every named entry decodes to a
  matrix, \<open>Load\<close> returns nil and the network whose layers hold the decoded matrices,
  whatever their dimensions.
\<close>

theorem Load_missing_or_unchecked:
  assumes "files fs filename = Some (ZipFile ar)"
  shows "(map_of ar ''meta.json'' = None \<longrightarrow>
            Load filename fs rnd = Inr (Network_zero, Some ErrNotExist)) \<and>
         (\<forall>opts n rnd' k.
            map_of ar ''meta.json'' = Some (JSON opts) \<and>
            NewNetwork (opt_I opts) (opt_O opts) (opt_H opts) (opt_Learn opts) False rnd
              = Inr (n, rnd') \<and>
            length (layers n) \<le> length (opt_WPaths opts) \<and>
            length (layers n) \<le> length (opt_BPaths opts) \<and>
            k < length (layers n) \<and>
            (map_of ar (opt_WPaths opts ! k) = None \<or> map_of ar (opt_BPaths opts ! k) = None)
            \<longrightarrow> (\<exists>err. Load filename fs rnd = Inr (Network_zero, Some err))) \<and>
         (\<forall>opts n rnd' ms.
            map_of ar ''meta.json'' = Some (JSON opts) \<and>
            NewNetwork (opt_I opts) (opt_O opts) (opt_H opts) (opt_Learn opts) False rnd
              = Inr (n, rnd') \<and>
            length ms = length (layers n) \<and>
            (\<forall>k<length ms.
               k < length (opt_WPaths opts) \<and> k < length (opt_BPaths opts) \<and>
               map_of ar (opt_WPaths opts ! k) = Some (Binary (weights (ms ! k))) \<and>
               map_of ar (opt_BPaths opts ! k) = Some (Binary (biases (ms ! k))))
            \<longrightarrow> Load filename fs rnd = Inr (n\<lparr>layers := ms\<rparr>, None))"
proof (intro conjI allI impI)
  assume "map_of ar ''meta.json'' = None"
  with assms show "Load filename fs rnd = Inr (Network_zero, Some ErrNotExist)"
    by (simp add: Load_def)
next
  fix opts n rnd' k
  assume a: "map_of ar ''meta.json'' = Some (JSON opts) \<and>
            NewNetwork (opt_I opts) (opt_O opts) (opt_H opts) (opt_Learn opts) False rnd
              = Inr (n, rnd') \<and>
            length (layers n) \<le> length (opt_WPaths opts) \<and>
            length (layers n) \<le> length (opt_BPaths opts) \<and>
            k < length (layers n) \<and>
            (map_of ar (opt_WPaths opts ! k) = None \<or> map_of ar (opt_BPaths opts ! k) = None)"
  then have nn: "NewNetwork (opt_I opts) (opt_O opts) (opt_H opts) (opt_Learn opts) False rnd
              = Inr (n, rnd')" by simp
  from NewNetwork_h[OF nn] have h: "nat (net_h n) = length (layers n)" by simp
  from a have "\<exists>err. Load_loop opts ar [0..<nat (net_h n)] (layers n) = Inr (Inl err)"
    unfolding h by (intro Load_loop_missing[where h="length (layers n)" and k=k]) auto
  then obtain err where "Load_loop opts ar [0..<nat (net_h n)] (layers n) = Inr (Inl err)" ..
  with assms a show "\<exists>err. Load filename fs rnd = Inr (Network_zero, Some err)"
    by (simp add: Load_def)
next
  fix opts n rnd' and ms :: "layer list"
  assume a: "map_of ar ''meta.json'' = Some (JSON opts) \<and>
            NewNetwork (opt_I opts) (opt_O opts) (opt_H opts) (opt_Learn opts) False rnd
              = Inr (n, rnd') \<and>
            length ms = length (layers n) \<and>
            (\<forall>k<length ms.
               k < length (opt_WPaths opts) \<and> k < length (opt_BPaths opts) \<and>
               map_of ar (opt_WPaths opts ! k) = Some (Binary (weights (ms ! k))) \<and>
               map_of ar (opt_BPaths opts ! k) = Some (Binary (biases (ms ! k))))"
  then have nn: "NewNetwork (opt_I opts) (opt_O opts) (opt_H opts) (opt_Learn opts) False rnd
              = Inr (n, rnd')" and len: "length (layers n) = length ms" by simp_all
  from NewNetwork_h[OF nn] len have h: "nat (net_h n) = length ms" by simp
  from a have "Load_loop opts ar [0..<length ms] (layers n) = Inr (Inr (take (length ms) ms @ drop (length ms) (layers n)))"
    by (intro Load_loop_found[OF len]) auto
  with assms a h show "Load filename fs rnd = Inr (n\<lparr>layers := ms\<rparr>, None)"
    by (simp add: Load_def)
qed

lemma digit_small: "digit 0 = CHR ''0''" "digit (Suc 0) = CHR ''1''"
  by code_simp+

lemma show_nat_small: "show_nat 0 = ''0''" "show_nat (Suc 0) = ''1''"
  by (simp_all add: show_nat.simps digit_small)

lemma NewNetwork_rate221:
  "NewNetwork 2 1 [2] r False rnd = Inr (rate_as net221 r, rnd)"
  by (simp add: NewNetwork_def NewNetwork_body_def upt_2 idx_def newLayer_def NewDense_def
        net221_def zeros_def rate_as_def)

lemma topology_rate_as: "topology_ok (rate_as n r) = topology_ok n"
proof -
  have "layer_ok (rate_as n r) = layer_ok n"
    by (rule ext) (simp add: layer_ok_def rate_as_def)
  then show ?thesis by (simp add: topology_ok_def) (simp add: rate_as_def)
qed

theorem Save_then_Load_witness:
  "NewNetwork 2 1 [2] (Finite (1/10)) False (sconst 0)
     = Inr (rate_as net221 (Finite (1/10)), sconst 0) \<and>
   topology_ok (rate_as net221 (Finite (1/10))) \<and>
   hidden (rate_as net221 (Finite (1/10))) \<noteq> [] \<and>
   ''net.zip'' \<notin> cannot_create fs_empty \<and>
   learnRate (rate_as net221 (Finite (1/10))) = Finite (1/10) \<and>
   (\<exists>fs'. Save (rate_as net221 (Finite (1/10))) ''net.zip'' fs_empty = (Inr None, fs') \<and>
          Load ''net.zip'' fs' (sconst 0) = Inr (net221, None)) \<and>
   NewNetwork 2 1 [2] PosInf False (sconst 0) = Inr (rate_as net221 PosInf, sconst 0) \<and>
   topology_ok (rate_as net221 PosInf) \<and> hidden (rate_as net221 PosInf) \<noteq> [] \<and>
   (\<forall>r. learnRate (rate_as net221 PosInf) \<noteq> Finite r) \<and>
   (\<exists>fs'. Save (rate_as net221 PosInf) ''net.zip'' fs_empty = (Inr None, fs') \<and>
          Load ''net.zip'' fs' (sconst 0) = Inr (Network_zero, Some ErrJSON))"
proof -
  have c: "''net.zip'' \<notin> cannot_create fs_empty" by (simp add: fs_empty_def)
  have t: "topology_ok (rate_as net221 r)" for r :: float64
    by (simp add: topology_rate_as topology_net221)
  have h: "hidden (rate_as net221 r) \<noteq> []" for r :: float64
    by (simp add: rate_as_def net221_def)
  have l1: "learnRate (rate_as net221 (Finite (1/10))) = Finite (1/10)" by (simp add: rate_as_def)
  have l2: "\<forall>r. learnRate (rate_as net221 PosInf) \<noteq> Finite r" by (simp add: rate_as_def)
  have e: "rate_as (rate_as net221 (Finite (1/10))) (1/10) = net221"
    by (simp add: rate_as_def net221_def)
  from Save_then_Load[OF t h c, of "Finite (1/10)" "sconst 0"] l1
  have "\<exists>fs'. Save (rate_as net221 (Finite (1/10))) ''net.zip'' fs_empty = (Inr None, fs') \<and>
          Load ''net.zip'' fs' (sconst 0) =
            Inr (rate_as (rate_as net221 (Finite (1/10))) (1/10), None)"
    by blast
  then have a: "\<exists>fs'. Save (rate_as net221 (Finite (1/10))) ''net.zip'' fs_empty = (Inr None, fs') \<and>
          Load ''net.zip'' fs' (sconst 0) = Inr (net221, None)"
    by (simp only: e)
  from Save_then_Load[OF t h c, of PosInf "sconst 0"] l2
  have b: "\<exists>fs'. Save (rate_as net221 PosInf) ''net.zip'' fs_empty = (Inr None, fs') \<and>
          Load ''net.zip'' fs' (sconst 0) = Inr (Network_zero, Some ErrJSON)"
    by blast
  from NewNetwork_rate221[of "Finite (1/10)" "sconst 0"] NewNetwork_rate221[of PosInf "sconst 0"]
    t h c l1 l2 a b
  show ?thesis by (intro conjI)
qed

lemma NewNetwork_meta221:
  "NewNetwork (opt_I meta221) (opt_O meta221) (opt_H meta221) (opt_Learn meta221) False rnd
     = Inr (net221, rnd)"
  using NewNetwork_net221[of rnd] by (simp add: meta221_def)

text \<open>
  Claim C6, as stated, fails: the metadata describes a network with two inputs, two hidden
  neurons and one output, whose first weight matrix is 2-by-2, and the blob named for it
  decodes to a 3-by-5 matrix. \<open>Load\<close> returns nil and a network with that matrix in its
  first layer, which violates the invariant.
\<close>

theorem wrong_dimensions_loaded:
  "files fs_bad ''bad.zip'' = Some (ZipFile ar_bad) \<and>
   map_of ar_bad ''meta.json'' = Some (JSON meta221) \<and>
   NewNetwork (opt_I meta221) (opt_O meta221) (opt_H meta221) (opt_Learn meta221) False (sconst 0)
     = Inr (net221, sconst 0) \<and>
   Dims (weights (layers net221 ! 0)) = (2, 2) \<and>
   map_of ar_bad (opt_WPaths meta221 ! 0) = Some (Binary (zeros 3 5)) \<and>
   Load ''bad.zip'' fs_bad (sconst 0) = Inr (net_bad, None) \<and>
   Dims (weights (layers net_bad ! 0)) = (3, 5) \<and>
   \<not> topology_ok net_bad"
proof -
  have f: "files fs_bad ''bad.zip'' = Some (ZipFile ar_bad)" by (simp add: fs_bad_def)
  have m: "map_of ar_bad ''meta.json'' = Some (JSON meta221)" by (simp add: ar_bad_def)
  have l: "Load_loop meta221 ar_bad [0..<nat (net_h net221)] (layers net221) = Inr (Inr (layers net_bad))"
    by (simp add: net221_def upt_2 Load_body_def meta221_def ar_bad_def idx_def net_bad_def)
  have e: "net221\<lparr>layers := layers net_bad\<rparr> = net_bad" by (simp add: net221_def net_bad_def)
  have ld: "Load ''bad.zip'' fs_bad (sconst 0) = Inr (net_bad, None)"
    by (simp add: Load_def f m NewNetwork_meta221 l e)
  have nt: "\<not> topology_ok net_bad"
    by (simp add: topology_ok_def net_bad_def upt_2 layer_ok_def zeros_def)
  show ?thesis using f m NewNetwork_meta221 ld nt
    by (simp add: net221_def net_bad_def zeros_def Dims_def meta221_def ar_bad_def)
qed

theorem Load_missing_or_unchecked_witness:
  "files fs_bad ''empty.zip'' = Some (ZipFile []) \<and>
   map_of ([] :: archive) ''meta.json'' = None \<and>
   Load ''empty.zip'' fs_bad (sconst 0) = Inr (Network_zero, Some ErrNotExist) \<and>
   files fs_bad ''short.zip'' = Some (ZipFile ar_short) \<and>
   map_of ar_short ''meta.json'' = Some (JSON meta221) \<and>
   NewNetwork (opt_I meta221) (opt_O meta221) (opt_H meta221) (opt_Learn meta221) False (sconst 0)
     = Inr (net221, sconst 0) \<and>
   length (layers net221) \<le> length (opt_WPaths meta221) \<and>
   length (layers net221) \<le> length (opt_BPaths meta221) \<and>
   Suc 0 < length (layers net221) \<and>
   map_of ar_short (opt_BPaths meta221 ! Suc 0) = None \<and>
   (\<exists>err. Load ''short.zip'' fs_bad (sconst 0) = Inr (Network_zero, Some err)) \<and>
   files fs_bad ''bad.zip'' = Some (ZipFile ar_bad) \<and>
   map_of ar_bad ''meta.json'' = Some (JSON meta221) \<and>
   length (layers net_bad) = length (layers net221) \<and>
   Load ''bad.zip'' fs_bad (sconst 0) = Inr (net221\<lparr>layers := layers net_bad\<rparr>, None)"
proof -
  have f1: "files fs_bad ''empty.zip'' = Some (ZipFile [])" by (simp add: fs_bad_def)
  have m1: "map_of ([] :: archive) ''meta.json'' = None" by simp
  from Load_missing_or_unchecked[OF f1, of "sconst 0"] m1
  have r1: "Load ''empty.zip'' fs_bad (sconst 0) = Inr (Network_zero, Some ErrNotExist)" by blast
  have f2: "files fs_bad ''short.zip'' = Some (ZipFile ar_short)" by (simp add: fs_bad_def)
  have m2: "map_of ar_short ''meta.json'' = Some (JSON meta221)" by (simp add: ar_short_def)
  have l2: "length (layers net221) \<le> length (opt_WPaths meta221)"
    "length (layers net221) \<le> length (opt_BPaths meta221)" "Suc 0 < length (layers net221)"
    by (simp_all add: net221_def meta221_def)
  have b2: "map_of ar_short (opt_BPaths meta221 ! Suc 0) = None"
    by (simp add: ar_short_def meta221_def)
  have r2: "\<exists>err. Load ''short.zip'' fs_bad (sconst 0) = Inr (Network_zero, Some err)"
    using Load_missing_or_unchecked[OF f2, of "sconst 0", THEN conjunct2, THEN conjunct1,
        rule_format, of meta221 net221 "sconst 0" "Suc 0"]
      m2 NewNetwork_meta221[of "sconst 0"] l2 b2 by blast
  have f3: "files fs_bad ''bad.zip'' = Some (ZipFile ar_bad)" by (simp add: fs_bad_def)
  have m3: "map_of ar_bad ''meta.json'' = Some (JSON meta221)" by (simp add: ar_bad_def)
  have l3: "length (layers net_bad) = length (layers net221)" by (simp add: net_bad_def net221_def)
  have e3: "\<forall>k<length (layers net_bad).
               k < length (opt_WPaths meta221) \<and> k < length (opt_BPaths meta221) \<and>
               map_of ar_bad (opt_WPaths meta221 ! k) = Some (Binary (weights (layers net_bad ! k))) \<and>
               map_of ar_bad (opt_BPaths meta221 ! k) = Some (Binary (biases (layers net_bad ! k)))"
    by (simp add: net_bad_def meta221_def ar_bad_def less_Suc_eq numeral_2_eq_2)
  have r3: "Load ''bad.zip'' fs_bad (sconst 0) = Inr (net221\<lparr>layers := layers net_bad\<rparr>, None)"
    using Load_missing_or_unchecked[OF f3, of "sconst 0", THEN conjunct2, THEN conjunct2,
        rule_format, of meta221 net221 "sconst 0" "layers net_bad"]
      m3 NewNetwork_meta221[of "sconst 0"] l3 e3 by blast
  show ?thesis
    using f1 m1 r1 f2 m2 NewNetwork_meta221[of "sconst 0"] l2 b2 r2 f3 m3 l3 r3
    by (intro conjI)
qed

section \<open>Back-propagation reads the updated weights of the next layer\<close>

lemma index_in_range: "r < R \<Longrightarrow> c < C \<Longrightarrow> r * C + c < R * (C::nat)"
proof -
  assume a: "r < R" "c < C"
  then have "r * C + c < r * C + C" by simp
  also have "\<dots> = Suc r * C" by simp
  also from a(1) have "\<dots> \<le> R * C" by (intro mult_le_mono1) simp
  finally show ?thesis .
qed

lemma At_add_m [simp]:
  "r < Rows a \<Longrightarrow> c < Cols a \<Longrightarrow> At (add_m a b) r c = At a r c + At b r c"
  by (simp add: add_m_def)

lemma At_sub_m [simp]:
  "r < Rows a \<Longrightarrow> c < Cols a \<Longrightarrow> At (sub_m a b) r c = At a r c - At b r c"
  by (simp add: sub_m_def)

lemma At_scale_m [simp]:
  "r < Rows a \<Longrightarrow> c < Cols a \<Longrightarrow> At (scale_m f a) r c = f * At a r c"
  by (simp add: scale_m_def)

lemma At_hadamard [simp]:
  "r < Rows a \<Longrightarrow> c < Cols a \<Longrightarrow> At (hadamard a b) r c = At a r c * At b r c"
  by (simp add: hadamard_def)

lemma At_apply_m [simp]:
  "r < Rows a \<Longrightarrow> c < Cols a \<Longrightarrow> At (apply_m fn a) r c = fn (int r) (int c) (At a r c)"
  by (simp add: apply_m_def)

lemma At_matmul:
  "r < Rows a \<Longrightarrow> c < Cols b \<Longrightarrow>
     At (matmul a b) r c = sum_list (map (\<lambda>k. At a r k * At b k c) [0..<Cols a])"
  by (simp add: matmul_def)

lemma At_transpose_m [simp]:
  "r < Cols a \<Longrightarrow> c < Rows a \<Longrightarrow> At (transpose_m a) r c = At a c r"
  by (simp add: transpose_m_def)

lemma At_column [simp]: "At (column xs) r 0 = xs ! r"
  by (simp add: At_def column_def)

lemma sum_list_upt_cong:
  "(\<And>k. k < n \<Longrightarrow> f k = g k) \<Longrightarrow>
     sum_list (map f [0..<n]) = (sum_list (map g [0..<n]) :: real)"
  by (rule arg_cong[where f=sum_list], rule map_cong) simp_all

lemma sum_list_upt_zero: "sum_list (map (\<lambda>k. 0 :: real) [0..<n]) = 0"
  by (induction n) simp_all

lemma sum_list_upt_one: "sum_list (map f [0..<1]) = (f 0 :: real)"
  by simp

text \<open>A sum of squares is positive as soon as one of them is.\<close>

lemma sum_squares_nonneg: "0 \<le> sum_list (map (\<lambda>k. (f k)\<^sup>2) [0..<n] :: real list)"
  by (induction n) simp_all

lemma sum_squares_pos:
  assumes "j < n" "f j \<noteq> (0::real)"
  shows "0 < sum_list (map (\<lambda>k. (f k)\<^sup>2) [0..<n])"
  using assms(1)
proof (induction n)
  case 0 then show ?case by simp
next
  case (Suc n)
  show ?case
  proof (cases "j = n")
    case True
    with assms(2) have "0 < (f n)\<^sup>2" by simp
    from add_nonneg_pos[OF sum_squares_nonneg[of f n] this] show ?thesis by simp
  next
    case False
    with Suc have "0 < sum_list (map (\<lambda>k. (f k)\<^sup>2) [0..<n])" by simp
    moreover have "0 \<le> (f n)\<^sup>2" by simp
    ultimately have "0 < sum_list (map (\<lambda>k. (f k)\<^sup>2) [0..<n]) + (f n)\<^sup>2"
      by (rule add_pos_nonneg)
    then show ?thesis by simp
  qed
qed

lemma all_zero_At:
  assumes "topology_ok n" "all_zero n" "k < length (layers n)"
  shows "r < Rows (weights (layers n ! k)) \<Longrightarrow> c < Cols (weights (layers n ! k)) \<Longrightarrow>
           At (weights (layers n ! k)) r c = 0"
    and "r < Rows (weights (layers n ! k)) \<Longrightarrow> At (biases (layers n ! k)) r 0 = 0"
proof -
  from topology_layer[OF assms(1,3)] have w: "wf_dense (weights (layers n ! k))"
    and b: "wf_dense (biases (layers n ! k))" "Rows (biases (layers n ! k)) = Rows (weights (layers n ! k))"
      "Cols (biases (layers n ! k)) = 1"
    by (simp_all add: layer_ok_def Let_def)
  from assms(2,3) have z: "\<And>i. i < length (Data (weights (layers n ! k))) \<Longrightarrow> Data (weights (layers n ! k)) ! i = 0"
    "\<And>i. i < length (Data (biases (layers n ! k))) \<Longrightarrow> Data (biases (layers n ! k)) ! i = 0"
    by (simp_all add: all_zero_def list_all_length)
  show "At (weights (layers n ! k)) r c = 0"
    if "r < Rows (weights (layers n ! k))" "c < Cols (weights (layers n ! k))"
    unfolding At_def using index_in_range[OF that] w by (intro z(1)) (simp add: wf_dense_def)
  show "At (biases (layers n ! k)) r 0 = 0" if "r < Rows (weights (layers n ! k))"
    unfolding At_def using that b by (intro z(2)) (simp add: wf_dense_def)
qed

lemma zero_forward:
  assumes t: "topology_ok n" and az: "all_zero n" and lx: "int (length xs) = net_i n"
    and k: "k < length (layers n)" and r: "r < Rows (weights (layers n ! k))"
  shows "At (spec_z (layers n) (column xs) k) r 0 = 0"
    and "At (spec_activation (layers n) (column xs) (Suc k)) r 0 = 1/2"
proof -
  let ?ls = "layers n" and ?x = "column xs"
  let ?a = "spec_activation ?ls ?x k"
  have rx: "Rows ?x = nat (net_i n)" using lx by simp
  have ch: "chain_ok (nat (net_i n)) ?ls" by (rule topology_chain[OF t])
  from spec_activation_dims[OF ch rx, of k] k have ca: "Cols ?a = 1" by simp
  have m: "At (matmul (weights (?ls ! k)) ?a) r 0 = 0"
  proof -
    have "At (matmul (weights (?ls ! k)) ?a) r 0 =
        sum_list (map (\<lambda>j. At (weights (?ls ! k)) r j * At ?a j 0) [0..<Cols (weights (?ls ! k))])"
      using r ca by (intro At_matmul) simp_all
    also have "\<dots> = sum_list (map (\<lambda>j. 0) [0..<Cols (weights (?ls ! k))])"
      using all_zero_At(1)[OF t az k r] by (intro sum_list_upt_cong) simp
    finally show ?thesis by (simp add: sum_list_upt_zero)
  qed
  show z: "At (spec_z ?ls ?x k) r 0 = 0"
    unfolding spec_z_def z_of_def using r ca m all_zero_At(2)[OF t az k r] by simp
  have "At (spec_activation ?ls ?x (Suc k)) r 0 = sigmoid (int r) 0 (At (spec_z ?ls ?x k) r 0)"
    unfolding spec_activation.simps a_of_def spec_z_def[symmetric]
    using r ca by (intro At_apply_m[where c=0, simplified]) (simp_all add: spec_z_def z_of_def)
  then show "At (spec_activation ?ls ?x (Suc k)) r 0 = 1/2" by (simp add: z)
qed

lemma gradTerm_zero_entry:
  assumes "Dims d = (R, 1)" "Dims z = (R, 1)" "r < R" "At z r 0 = 0"
  shows "At (gradTerm d z) r 0 = At d r 0 / 4"
  using assms by (simp add: gradTerm_def Dims_def)

lemma backpropagate_summary:
  assumes "topology_ok n" "int (length xs) = net_i n" "int (length ys) = net_o n"
  shows "backpropagate n xs ys = (None, n\<lparr>layers := final_layers n xs ys\<rparr>)"
    and "k \<le> length (layers n) \<Longrightarrow> layerErrors_at n xs ys k = Some (delta_of n xs ys k)"
    and "k < length (layers n) \<Longrightarrow> Dims (delta_of n xs ys k) = (Rows (weights (layers n ! k)), 1)"
    and "k < length (layers n) \<Longrightarrow>
           final_layers n xs ys ! k =
             spec_update (learnRate n) (layers n ! k) (delta_of n xs ys k)
               (spec_z (layers n) (column xs) k) (spec_activation (layers n) (column xs) k)"
    and "Suc k < length (layers n) \<Longrightarrow>
           delta_of n xs ys k =
             matmul (transpose_m (weights (final_layers n xs ys ! Suc k))) (delta_of n xs ys (Suc k))"
    and "delta_of n xs ys (length (layers n) - 1) = out_error n xs ys"
    and "length (final_layers n xs ys) = length (layers n)"
proof -
  note res = backpropagate_result[OF assms]
  show "backpropagate n xs ys = (None, n\<lparr>layers := final_layers n xs ys\<rparr>)"
    using res(1) by (simp add: final_layers_def out_error_def)
  show "k \<le> length (layers n) \<Longrightarrow> layerErrors_at n xs ys k = Some (delta_of n xs ys k)"
    using res(2) by (simp add: delta_of_def out_error_def)
  show "Dims (delta_of n xs ys k) = (Rows (weights (layers n ! k)), 1)" if "k < length (layers n)"
  proof -
    from that have "k \<le> length (layers n)" by simp
    from backward_inv[OF res(3) this, THEN conjunct2, THEN conjunct2, THEN conjunct2, THEN conjunct1]
      that show ?thesis by (simp add: delta_of_def out_error_def)
  qed
  show "final_layers n xs ys ! k =
             spec_update (learnRate n) (layers n ! k) (delta_of n xs ys k)
               (spec_z (layers n) (column xs) k) (spec_activation (layers n) (column xs) k)"
    if k: "k < length (layers n)"
  proof -
    have ap: "(if k = 0 then column xs
               else map (\<lambda>k. spec_activation (layers n) (column xs) (Suc k)) [0..<length (layers n)] ! (k - 1))
        = spec_activation (layers n) (column xs) k"
      using k by (cases k) simp_all
    from bp_layers_final[OF res(3) k] k show ?thesis
      unfolding ap by (simp add: final_layers_def delta_of_def out_error_def)
  qed
  show "delta_of n xs ys k =
             matmul (transpose_m (weights (final_layers n xs ys ! Suc k))) (delta_of n xs ys (Suc k))"
    if "Suc k < length (layers n)"
    using bp_delta_rec[OF res(3) that] by (simp add: final_layers_def delta_of_def out_error_def T_def)
  show "delta_of n xs ys (length (layers n) - 1) = out_error n xs ys"
    using bp_delta_last[OF res(3)] by (simp add: delta_of_def out_error_def)
  show "length (final_layers n xs ys) = length (layers n)"
    using backward_inv[OF res(3), of 0, THEN conjunct2, THEN conjunct1]
    by (simp add: dims_like_def final_layers_def out_error_def)
qed

lemma zero_backward:
  assumes t: "topology_ok n" and az: "all_zero n"
    and lx: "int (length xs) = net_i n" and ly: "int (length ys) = net_o n"
  shows "k < length (layers n) \<Longrightarrow> r < Rows (weights (layers n ! k)) \<Longrightarrow>
           At (biases (final_layers n xs ys ! k)) r 0 = learnRate n * At (delta_of n xs ys k) r 0 / 2"
    and "Suc j < length (layers n) \<Longrightarrow> c < Rows (weights (layers n ! j)) \<Longrightarrow>
           At (delta_of n xs ys j) c 0 = learnRate n / 8 *
             sum_list (map (\<lambda>r. (At (delta_of n xs ys (Suc j)) r 0)\<^sup>2)
               [0..<Rows (weights (layers n ! Suc j))])"
    and "r < length ys \<Longrightarrow> At (delta_of n xs ys (length (layers n) - 1)) r 0 = ys ! r - 1/2"
    and "Suc j < length (layers n) \<Longrightarrow> c < Rows (weights (layers n ! j)) \<Longrightarrow>
           At (matmul (transpose_m (weights (layers n ! Suc j))) (delta_of n xs ys (Suc j))) c 0 = 0"
proof -
  let ?ls = "layers n" and ?h = "length (layers n)" and ?x = "column xs"
  let ?d = "delta_of n xs ys" and ?F = "final_layers n xs ys"
  note sm = backpropagate_summary[OF t lx ly]
  note p = topology_pos[OF t]
  have rx: "Rows ?x = nat (net_i n)" using lx by simp
  have ch: "chain_ok (nat (net_i n)) ?ls" by (rule topology_chain[OF t])
  note dims = sm(3)
  have zdim: "Dims (spec_z ?ls ?x k) = (Rows (weights (?ls ! k)), 1)" if "k < ?h" for k
    by (rule spec_z_dims[OF ch rx _ that]) simp
  have zz: "At (spec_z ?ls ?x k) r 0 = 0" if "k < ?h" "r < Rows (weights (?ls ! k))" for k r
    by (rule zero_forward(1)[OF t az lx that])
  have g: "At (gradTerm (?d k) (spec_z ?ls ?x k)) r 0 = At (?d k) r 0 / 4"
    if "k < ?h" "r < Rows (weights (?ls ! k))" for k r
    by (rule gradTerm_zero_entry[OF dims[OF that(1)] zdim[OF that(1)] that(2) zz[OF that]])
  have gd: "Rows (gradTerm (?d k) (spec_z ?ls ?x k)) = Rows (weights (?ls ! k))"
    "Cols (gradTerm (?d k) (spec_z ?ls ?x k)) = 1" if "k < ?h" for k
    using dims[OF that] by (simp_all add: gradTerm_def Dims_def)
  note fin = sm(4)
  have cw: "0 < Rows (weights (?ls ! k))" "0 < Cols (weights (?ls ! k))"
     "Dims (biases (?ls ! k)) = (Rows (weights (?ls ! k)), 1)" if "k < ?h" for k
    using ch that by (auto simp: chain_ok_def)
  show bias: "At (biases (?F ! k)) r 0 = learnRate n * At (?d k) r 0 / 2"
    if "k < ?h" "r < Rows (weights (?ls ! k))" for k r
  proof -
    from cw(3)[OF that(1)] that(2)
    have rb: "r < Rows (biases (?ls ! k))" "0 < Cols (biases (?ls ! k))" by (simp_all add: Dims_def)
    have "At (biases (?F ! k)) r 0 =
        At (biases (?ls ! k)) r 0 + learnRate n * 2 * At (gradTerm (?d k) (spec_z ?ls ?x k)) r 0"
      unfolding fin[OF that(1)] spec_update_def using rb that(2) gd[OF that(1)] by simp
    with all_zero_At(2)[OF t az that] g[OF that] show ?thesis by simp
  qed
  show "At (?d (?h - 1)) r 0 = ys ! r - 1/2" if "r < length ys" for r
  proof -
    obtain j where j: "?h = Suc j" using p(3) by (cases ?h) auto
    then have jh: "j < ?h" by simp
    have rr: "r < Rows (weights (?ls ! j))" using that p(5) ly j by simp
    have cy: "Rows (column ys) = length ys" "Cols (column ys) = 1" by simp_all
    have ad: "Rows (spec_activation ?ls ?x (Suc j)) = Rows (weights (?ls ! j))"
      "Cols (spec_activation ?ls ?x (Suc j)) = 1"
      using spec_activation_Suc_dims[OF ch rx _ jh] by (simp_all add: Dims_def)
    have "At (?d (?h - 1)) r 0 = At (out_error n xs ys) r 0" by (simp only: sm(6))
    also have "\<dots> = At (sub_m (column ys) (spec_activation ?ls ?x (Suc j))) r 0"
      by (simp only: out_error_def j)
    also have "\<dots> = At (column ys) r 0 - At (spec_activation ?ls ?x (Suc j)) r 0"
      by (rule At_sub_m) (simp_all add: that)
    also have "At (column ys) r 0 = ys ! r" using that by (simp add: At_column)
    finally show ?thesis using zero_forward(2)[OF t az lx jh rr] by simp
  qed
  have wnew: "At (weights (?F ! Suc j)) r c = learnRate n * At (?d (Suc j)) r 0 / 8"
    if "Suc j < ?h" "r < Rows (weights (?ls ! Suc j))" "c < Rows (weights (?ls ! j))" for j r c
  proof -
    let ?k = "Suc j"
    let ?a = "spec_activation ?ls ?x (Suc j)"
    have jh: "j < ?h" using that(1) by simp
    from ch that(1) have cc: "Cols (weights (?ls ! ?k)) = Rows (weights (?ls ! j))"
      by (auto simp: chain_ok_def)
    have adim: "Rows ?a = Rows (weights (?ls ! j))" "Cols ?a = 1"
      using spec_activation_Suc_dims[OF ch rx _ jh] by (simp_all add: Dims_def)
    have a12: "At ?a c 0 = 1/2"
      by (rule zero_forward(2)[OF t az lx jh that(3)])
    have mm: "At (matmul (gradTerm (?d ?k) (spec_z ?ls ?x ?k)) (transpose_m ?a)) r c =
        At (?d ?k) r 0 / 4 * (1/2)"
    proof -
      have "At (matmul (gradTerm (?d ?k) (spec_z ?ls ?x ?k)) (transpose_m ?a)) r c =
          sum_list (map (\<lambda>i. At (gradTerm (?d ?k) (spec_z ?ls ?x ?k)) r i * At (transpose_m ?a) i c)
            [0..<Cols (gradTerm (?d ?k) (spec_z ?ls ?x ?k))])"
        using that gd[OF that(1)] adim by (intro At_matmul) simp_all
      also have "\<dots> = At (gradTerm (?d ?k) (spec_z ?ls ?x ?k)) r 0 * At (transpose_m ?a) 0 c"
        unfolding gd(2)[OF that(1)] by simp
      also have "At (transpose_m ?a) 0 c = At ?a c 0"
        using adim that(3) by (intro At_transpose_m) simp_all
      finally show ?thesis using g[OF that(1,2)] a12 by simp
    qed
    have "At (weights (?F ! ?k)) r c = At (weights (?ls ! ?k)) r c +
        learnRate n * At (matmul (gradTerm (?d ?k) (spec_z ?ls ?x ?k)) (transpose_m ?a)) r c"
      unfolding fin[OF that(1)] spec_update_def using that cc gd[OF that(1)] adim by simp
    with all_zero_At(1)[OF t az that(1,2)] that(3) cc mm show ?thesis by simp
  qed
  show "At (?d j) c 0 = learnRate n / 8 *
             sum_list (map (\<lambda>r. (At (?d (Suc j)) r 0)\<^sup>2) [0..<Rows (weights (?ls ! Suc j))])"
    if "Suc j < ?h" "c < Rows (weights (?ls ! j))" for j c
  proof -
    from ch that(1) have cc: "Cols (weights (?ls ! Suc j)) = Rows (weights (?ls ! j))"
      by (auto simp: chain_ok_def)
    have fd: "Rows (weights (?F ! Suc j)) = Rows (weights (?ls ! Suc j))"
      "Cols (weights (?F ! Suc j)) = Cols (weights (?ls ! Suc j))"
      unfolding fin[OF that(1)] spec_update_def by simp_all
    note rec = sm(5)[OF that(1)]
    have "At (?d j) c 0 =
        sum_list (map (\<lambda>r. At (transpose_m (weights (?F ! Suc j))) c r * At (?d (Suc j)) r 0)
          [0..<Cols (transpose_m (weights (?F ! Suc j)))])"
      unfolding rec using that(2) cc fd dims[OF that(1)] by (intro At_matmul) (simp_all add: Dims_def)
    also have "\<dots> = sum_list (map (\<lambda>r. learnRate n / 8 * (At (?d (Suc j)) r 0)\<^sup>2)
          [0..<Rows (weights (?ls ! Suc j))])"
    proof -
      have "At (transpose_m (weights (?F ! Suc j))) c r * At (?d (Suc j)) r 0 =
            learnRate n / 8 * (At (?d (Suc j)) r 0)\<^sup>2" if r: "r < Rows (weights (?ls ! Suc j))" for r
      proof -
        have "At (transpose_m (weights (?F ! Suc j))) c r = At (weights (?F ! Suc j)) r c"
          using \<open>c < Rows (weights (?ls ! j))\<close> r cc fd by (intro At_transpose_m) simp_all
        with wnew[OF \<open>Suc j < ?h\<close> r \<open>c < Rows (weights (?ls ! j))\<close>] show ?thesis
          by (simp add: power2_eq_square)
      qed
      note step = this
      have ce: "Cols (transpose_m (weights (?F ! Suc j))) = Rows (weights (?ls ! Suc j))"
        using fd by simp
      show ?thesis unfolding ce by (rule sum_list_upt_cong) (rule step)
    qed
    also have "\<dots> = learnRate n / 8 *
        sum_list (map (\<lambda>r. (At (?d (Suc j)) r 0)\<^sup>2) [0..<Rows (weights (?ls ! Suc j))])"
      by (rule sum_list_const_mult)
    finally show ?thesis .
  qed
  show "At (matmul (transpose_m (weights (?ls ! Suc j))) (?d (Suc j))) c 0 = 0"
    if "Suc j < ?h" "c < Rows (weights (?ls ! j))" for j c
  proof -
    from ch that(1) have cc: "Cols (weights (?ls ! Suc j)) = Rows (weights (?ls ! j))"
      by (auto simp: chain_ok_def)
    have "At (matmul (transpose_m (weights (?ls ! Suc j))) (?d (Suc j))) c 0 =
        sum_list (map (\<lambda>r. At (transpose_m (weights (?ls ! Suc j))) c r * At (?d (Suc j)) r 0)
          [0..<Cols (transpose_m (weights (?ls ! Suc j)))])"
      using that(2) cc dims[OF that(1)] by (intro At_matmul) (simp_all add: Dims_def)
    also have "\<dots> = sum_list (map (\<lambda>r. 0) [0..<Rows (weights (?ls ! Suc j))])"
    proof -
      have "At (transpose_m (weights (?ls ! Suc j))) c r * At (?d (Suc j)) r 0 = 0"
        if r: "r < Rows (weights (?ls ! Suc j))" for r
      proof -
        have "At (transpose_m (weights (?ls ! Suc j))) c r = At (weights (?ls ! Suc j)) r c"
          using \<open>c < Rows (weights (?ls ! j))\<close> r cc by (intro At_transpose_m) simp_all
        with all_zero_At(1)[OF t az \<open>Suc j < ?h\<close> r] \<open>c < Rows (weights (?ls ! j))\<close> cc
        show ?thesis by simp
      qed
      note step = this
      have ce: "Cols (transpose_m (weights (?ls ! Suc j))) = Rows (weights (?ls ! Suc j))"
        by simp
      show ?thesis unfolding ce by (rule sum_list_upt_cong) (rule step)
    qed
    finally show ?thesis by (simp add: sum_list_upt_zero)
  qed
qed

lemma zero_weights_entry:
  assumes t: "topology_ok n" and az: "all_zero n"
    and lx: "int (length xs) = net_i n" and ly: "int (length ys) = net_o n"
    and k: "k < length (layers n)" and r: "r < Rows (weights (layers n ! k))"
    and c: "c < Cols (weights (layers n ! k))"
  shows "At (weights (final_layers n xs ys ! k)) r c =
           learnRate n * (At (delta_of n xs ys k) r 0 / 4 *
             At (spec_activation (layers n) (column xs) k) c 0)"
proof -
  let ?ls = "layers n" and ?x = "column xs"
  let ?d = "delta_of n xs ys k" and ?z = "spec_z (layers n) (column xs) k"
  let ?a = "spec_activation (layers n) (column xs) k"
  note sm = backpropagate_summary[OF t lx ly]
  have rx: "Rows ?x = nat (net_i n)" using lx by simp
  have ch: "chain_ok (nat (net_i n)) ?ls" by (rule topology_chain[OF t])
  have zdim: "Dims ?z = (Rows (weights (?ls ! k)), 1)"
    by (rule spec_z_dims[OF ch rx _ k]) simp
  have g: "At (gradTerm ?d ?z) r 0 = At ?d r 0 / 4"
    by (rule gradTerm_zero_entry[OF sm(3)[OF k] zdim r zero_forward(1)[OF t az lx k r]])
  have gd: "Rows (gradTerm ?d ?z) = Rows (weights (?ls ! k))" "Cols (gradTerm ?d ?z) = 1"
    using sm(3)[OF k] by (simp_all add: gradTerm_def Dims_def)
  from spec_activation_dims[OF ch rx, of k] k
  have adim: "Rows ?a = Cols (weights (?ls ! k))" "Cols ?a = 1"
    using ch by (auto simp: chain_ok_def Dims_def split: if_splits)
  have "At (matmul (gradTerm ?d ?z) (transpose_m ?a)) r c =
      sum_list (map (\<lambda>i. At (gradTerm ?d ?z) r i * At (transpose_m ?a) i c)
        [0..<Cols (gradTerm ?d ?z)])"
    using r c gd adim by (intro At_matmul) simp_all
  also have "\<dots> = At (gradTerm ?d ?z) r 0 * At (transpose_m ?a) 0 c"
    unfolding gd(2) by simp
  also have "At (transpose_m ?a) 0 c = At ?a c 0"
    using adim c by (intro At_transpose_m) simp_all
  finally have mm: "At (matmul (gradTerm ?d ?z) (transpose_m ?a)) r c = At ?d r 0 / 4 * At ?a c 0"
    using g by simp
  have "At (weights (final_layers n xs ys ! k)) r c = At (weights (?ls ! k)) r c +
      learnRate n * At (matmul (gradTerm ?d ?z) (transpose_m ?a)) r c"
    unfolding sm(4)[OF k] spec_update_def using r c gd adim by simp
  with all_zero_At(1)[OF t az k r c] mm show ?thesis by simp
qed

lemma zero_delta_nonzero:
  assumes t: "topology_ok n" and az: "all_zero n"
    and lx: "int (length xs) = net_i n" and ly: "int (length ys) = net_o n"
    and lr: "learnRate n \<noteq> 0" and j: "j < length ys" "ys ! j \<noteq> 1/2"
  shows "k + m = length (layers n) - 1 \<Longrightarrow>
           \<exists>r<Rows (weights (layers n ! k)). At (delta_of n xs ys k) r 0 \<noteq> 0"
    and "Suc k < length (layers n) \<Longrightarrow> r < Rows (weights (layers n ! k)) \<Longrightarrow>
           At (delta_of n xs ys k) r 0 \<noteq> 0"
proof -
  note zb = zero_backward[OF t az lx ly]
  note p = topology_pos[OF t]
  have ch: "chain_ok (nat (net_i n)) (layers n)" by (rule topology_chain[OF t])
  have step: "At (delta_of n xs ys k) r 0 \<noteq> 0"
    if "Suc k < length (layers n)" "r < Rows (weights (layers n ! k))"
      "\<exists>i<Rows (weights (layers n ! Suc k)). At (delta_of n xs ys (Suc k)) i 0 \<noteq> 0" for k r
  proof -
    from that(3) obtain i where i: "i < Rows (weights (layers n ! Suc k))"
      "At (delta_of n xs ys (Suc k)) i 0 \<noteq> 0" by blast
    have "0 < sum_list (map (\<lambda>r. (At (delta_of n xs ys (Suc k)) r 0)\<^sup>2)
               [0..<Rows (weights (layers n ! Suc k))])"
      by (rule sum_squares_pos[where f="\<lambda>r. At (delta_of n xs ys (Suc k)) r 0" and j=i, OF i])
    with lr show ?thesis unfolding zb(2)[OF that(1,2)] by simp
  qed
  show ex: "\<exists>r<Rows (weights (layers n ! k)). At (delta_of n xs ys k) r 0 \<noteq> 0"
    if "k + m = length (layers n) - 1" for k m
    using that
  proof (induction m arbitrary: k)
    case 0
    then have k: "k = length (layers n) - 1" by simp
    have "int (Rows (weights (layers n ! k))) = int (length ys)" using p(5) ly k by simp
    then have "j < Rows (weights (layers n ! k))" using j(1) by simp
    moreover have "At (delta_of n xs ys k) j 0 \<noteq> 0" unfolding k zb(3)[OF j(1)] using j(2) by simp
    ultimately show ?case by blast
  next
    case (Suc m)
    then have sk: "Suc k < length (layers n)" and "Suc k + m = length (layers n) - 1" by simp_all
    from Suc.IH[OF this(2)]
    have e: "\<exists>i<Rows (weights (layers n ! Suc k)). At (delta_of n xs ys (Suc k)) i 0 \<noteq> 0" .
    from ch sk have "0 < Rows (weights (layers n ! k))" by (auto simp: chain_ok_def)
    with step[OF sk _ e] show ?case by blast
  qed
  show "At (delta_of n xs ys k) r 0 \<noteq> 0"
    if "Suc k < length (layers n)" "r < Rows (weights (layers n ! k))"
  proof -
    from that(1) have "Suc k + (length (layers n) - 1 - Suc k) = length (layers n) - 1" by simp
    from step[OF that ex[OF this]] show ?thesis .
  qed
qed

lemma all_zero_net221: "all_zero net221"
  by (simp add: all_zero_def net221_def zeros_def list_all_iff)

lemma backpropagate_net221_half:
  "backpropagate net221 [1, 0] [1/2] = (None, net221)"
proof -
  have pre: "backpropagate_prelude net221 [1, 0] [1/2] =
     Inr (\<lparr>Rows = 2, Cols = 1, Data = [1, 0]\<rparr>,
          [\<lparr>Rows = 2, Cols = 1, Data = [0, 0]\<rparr>, \<lparr>Rows = 1, Cols = 1, Data = [0]\<rparr>],
          [\<lparr>Rows = 2, Cols = 1, Data = [1/2, 1/2]\<rparr>, \<lparr>Rows = 1, Cols = 1, Data = [1/2]\<rparr>],
          \<lparr>Rows = 1, Cols = 1, Data = [0]\<rparr>)"
    by (simp add: backpropagate_prelude_def net221_def zeros_def upt_2 forward_body_def idx_def
          mat_defs numeral_2_eq_2)
  have run: "backward_run net221 \<lparr>Rows = 2, Cols = 1, Data = [1, 0]\<rparr>
          [\<lparr>Rows = 2, Cols = 1, Data = [0, 0]\<rparr>, \<lparr>Rows = 1, Cols = 1, Data = [0]\<rparr>]
          [\<lparr>Rows = 2, Cols = 1, Data = [1/2, 1/2]\<rparr>, \<lparr>Rows = 1, Cols = 1, Data = [1/2]\<rparr>]
          \<lparr>Rows = 1, Cols = 1, Data = [0]\<rparr> 0 =
     (None, (layers net221, \<lparr>Rows = 2, Cols = 1, Data = [0, 0]\<rparr>))"
    by (simp add: backward_run_def backward_body_def net221_def zeros_def upt_2 idx_def mat_defs
          numeral_2_eq_2)
  have "net221\<lparr>layers := layers net221\<rparr> = net221" by simp
  then show ?thesis
    by (simp only: backpropagate_def pre run sum.case prod.case)
qed

text \<open>
  Claim C4. In a call of \<open>backpropagate\<close> that satisfies the preconditions, the error term
  of every layer \<open>k\<close> that is not the last is the product of the transpose of the weights of
  layer \<open>k + 1\<close> as the call leaves them, that is after their update in the iteration for
  layer \<open>k + 1\<close>, with the error term of layer \<open>k + 1\<close>. On a network whose matrices are all
  zero, with a learning rate other than zero and an expected output other than \<open>1/2\<close> in
  some component, this error term is nonzero in every entry, whereas the product with the
  weights at entry is zero; every bias entry of layer \<open>k\<close> changes, and a weight entry of
  layer \<open>k\<close> changes unless \<open>k\<close> is the first layer and the input of that column is zero.
\<close>

theorem backpropagate_uses_updated_weights:
  assumes "topology_ok n" "int (length xs) = net_i n" "int (length ys) = net_o n"
  shows "\<exists>n'. backpropagate n xs ys = (None, n') \<and>
     (\<forall>k. Suc k < length (layers n) \<longrightarrow>
        (\<exists>d d1. layerErrors_at n xs ys k = Some d \<and> layerErrors_at n xs ys (Suc k) = Some d1 \<and>
           d = matmul (transpose_m (weights (layers n' ! Suc k))) d1 \<and>
           (all_zero n \<and> learnRate n \<noteq> 0 \<and> (\<exists>j<length ys. ys ! j \<noteq> 1/2) \<longrightarrow>
              (\<forall>r<Rows (weights (layers n ! k)).
                 At d r 0 \<noteq> 0 \<and>
                 At (matmul (transpose_m (weights (layers n ! Suc k))) d1) r 0 = 0 \<and>
                 At (biases (layers n' ! k)) r 0 \<noteq> At (biases (layers n ! k)) r 0 \<and>
                 (\<forall>c<Cols (weights (layers n ! k)).
                    (At (weights (layers n' ! k)) r c \<noteq> At (weights (layers n ! k)) r c) =
                    (0 < k \<or> xs ! c \<noteq> 0))))))"
proof -
  let ?F = "final_layers n xs ys" and ?d = "delta_of n xs ys"
  note sm = backpropagate_summary[OF assms]
  have ch: "chain_ok (nat (net_i n)) (layers n)" by (rule topology_chain[OF assms(1)])
  have zero: "At (?d k) r 0 \<noteq> 0 \<and>
       At (matmul (transpose_m (weights (layers n ! Suc k))) (?d (Suc k))) r 0 = 0 \<and>
       At (biases (?F ! k)) r 0 \<noteq> At (biases (layers n ! k)) r 0 \<and>
       (\<forall>c<Cols (weights (layers n ! k)).
          (At (weights (?F ! k)) r c \<noteq> At (weights (layers n ! k)) r c) = (0 < k \<or> xs ! c \<noteq> 0))"
    if sk: "Suc k < length (layers n)" and az: "all_zero n" and lr: "learnRate n \<noteq> 0"
      and ex: "\<exists>j<length ys. ys ! j \<noteq> 1/2" and r: "r < Rows (weights (layers n ! k))" for k r
  proof -
    from ex obtain j where j: "j < length ys" "ys ! j \<noteq> 1/2" by blast
    from sk have k: "k < length (layers n)" by simp
    note zb = zero_backward[OF assms(1) az assms(2,3)]
    have dn: "At (?d k) r 0 \<noteq> 0"
      by (rule zero_delta_nonzero(2)[OF assms(1) az assms(2,3) lr j sk r])
    have old: "At (matmul (transpose_m (weights (layers n ! Suc k))) (?d (Suc k))) r 0 = 0"
      by (rule zb(4)[OF sk r])
    have b: "At (biases (?F ! k)) r 0 \<noteq> At (biases (layers n ! k)) r 0"
      unfolding zb(1)[OF k r] all_zero_At(2)[OF assms(1) az k r] using lr dn by simp
    have w: "(At (weights (?F ! k)) r c \<noteq> At (weights (layers n ! k)) r c) = (0 < k \<or> xs ! c \<noteq> 0)"
      if c: "c < Cols (weights (layers n ! k))" for c
    proof -
      have e: "At (weights (?F ! k)) r c =
          learnRate n * (At (?d k) r 0 / 4 * At (spec_activation (layers n) (column xs) k) c 0)"
        by (rule zero_weights_entry[OF assms(1) az assms(2,3) k r c])
      have a: "(At (spec_activation (layers n) (column xs) k) c 0 \<noteq> 0) = (0 < k \<or> xs ! c \<noteq> 0)"
      proof (cases k)
        case 0
        then show ?thesis by simp
      next
        case (Suc i)
        with k have i: "i < length (layers n)" by simp
        from ch k Suc c have "c < Rows (weights (layers n ! i))" by (auto simp: chain_ok_def)
        from zero_forward(2)[OF assms(1) az assms(2) i this] Suc show ?thesis by simp
      qed
      show ?thesis
        unfolding e all_zero_At(1)[OF assms(1) az k r c] using lr dn a by simp
    qed
    from dn old b w show ?thesis by blast
  qed
  have "\<exists>d d1. layerErrors_at n xs ys k = Some d \<and> layerErrors_at n xs ys (Suc k) = Some d1 \<and>
           d = matmul (transpose_m (weights (layers (n\<lparr>layers := ?F\<rparr>) ! Suc k))) d1 \<and>
           (all_zero n \<and> learnRate n \<noteq> 0 \<and> (\<exists>j<length ys. ys ! j \<noteq> 1/2) \<longrightarrow>
              (\<forall>r<Rows (weights (layers n ! k)).
                 At d r 0 \<noteq> 0 \<and>
                 At (matmul (transpose_m (weights (layers n ! Suc k))) d1) r 0 = 0 \<and>
                 At (biases (layers (n\<lparr>layers := ?F\<rparr>) ! k)) r 0 \<noteq> At (biases (layers n ! k)) r 0 \<and>
                 (\<forall>c<Cols (weights (layers n ! k)).
                    (At (weights (layers (n\<lparr>layers := ?F\<rparr>) ! k)) r c \<noteq> At (weights (layers n ! k)) r c) =
                    (0 < k \<or> xs ! c \<noteq> 0))))"
    if sk: "Suc k < length (layers n)" for k
  proof (intro exI conjI)
    from sk show "layerErrors_at n xs ys k = Some (?d k)" by (intro sm(2)) simp
    from sk show "layerErrors_at n xs ys (Suc k) = Some (?d (Suc k))" by (intro sm(2)) simp
    show "?d k = matmul (transpose_m (weights (layers (n\<lparr>layers := ?F\<rparr>) ! Suc k))) (?d (Suc k))"
      using sm(5)[OF sk] by simp
    show "all_zero n \<and> learnRate n \<noteq> 0 \<and> (\<exists>j<length ys. ys ! j \<noteq> 1/2) \<longrightarrow>
              (\<forall>r<Rows (weights (layers n ! k)).
                 At (?d k) r 0 \<noteq> 0 \<and>
                 At (matmul (transpose_m (weights (layers n ! Suc k))) (?d (Suc k))) r 0 = 0 \<and>
                 At (biases (layers (n\<lparr>layers := ?F\<rparr>) ! k)) r 0 \<noteq> At (biases (layers n ! k)) r 0 \<and>
                 (\<forall>c<Cols (weights (layers n ! k)).
                    (At (weights (layers (n\<lparr>layers := ?F\<rparr>) ! k)) r c \<noteq> At (weights (layers n ! k)) r c) =
                    (0 < k \<or> xs ! c \<noteq> 0)))"
      using zero[OF sk] by simp
  qed
  with sm(1) show ?thesis by blast
qed

text \<open>
  Claim C4, as stated for every zero-initialised network, fails in its last clause: when the
  expected output is \<open>1/2\<close>, the output of the zero network, the error terms are zero and
  no layer changes.
\<close>

theorem zero_network_without_update:
  "topology_ok net221 \<and> all_zero net221 \<and> length (layers net221) = 2 \<and>
   int (length [1, 0 :: real]) = net_i net221 \<and> int (length [1/2 :: real]) = net_o net221 \<and>
   backpropagate net221 [1, 0] [1/2] = (None, net221)"
  using topology_net221 all_zero_net221 backpropagate_net221_half by (simp add: net221_def)

theorem backpropagate_uses_updated_weights_witness:
  "topology_ok net221 \<and> int (length [1, 0 :: real]) = net_i net221 \<and>
   int (length [1 :: real]) = net_o net221 \<and> Suc 0 < length (layers net221) \<and>
   all_zero net221 \<and> learnRate net221 \<noteq> 0 \<and> 0 < length [1 :: real] \<and> [1 :: real] ! 0 \<noteq> 1/2 \<and>
   0 < Rows (weights (layers net221 ! 0)) \<and> 0 < Cols (weights (layers net221 ! 0)) \<and>
   backpropagate net221 [1, 0] [1] = (None, net221_trained) \<and>
   (\<exists>d d1. layerErrors_at net221 [1, 0] [1] 0 = Some d \<and>
      layerErrors_at net221 [1, 0] [1] (Suc 0) = Some d1 \<and>
      d = matmul (transpose_m (weights (layers net221_trained ! Suc 0))) d1 \<and>
      At d 0 0 \<noteq> 0 \<and>
      At (matmul (transpose_m (weights (layers net221 ! Suc 0))) d1) 0 0 = 0 \<and>
      At (biases (layers net221_trained ! 0)) 0 0 \<noteq> At (biases (layers net221 ! 0)) 0 0 \<and>
      At (weights (layers net221_trained ! 0)) 0 0 \<noteq> At (weights (layers net221 ! 0)) 0 0)"
proof -
  have h2: "int (length [1, 0 :: real]) = net_i net221" by (simp add: net221_def)
  have h3: "int (length [1 :: real]) = net_o net221" by (simp add: net221_def)
  have sk: "Suc 0 < length (layers net221)" by (simp add: net221_def)
  have lr: "learnRate net221 \<noteq> 0" by (simp add: net221_def)
  have ex: "\<exists>j<length [1 :: real]. [1 :: real] ! j \<noteq> 1/2" by simp
  have r: "0 < Rows (weights (layers net221 ! 0))" "0 < Cols (weights (layers net221 ! 0))"
    by (simp_all add: net221_def zeros_def)
  from backpropagate_uses_updated_weights[OF topology_net221 h2 h3]
  obtain n' where n': "backpropagate net221 [1, 0] [1] = (None, n')"
    and all: "\<forall>k. Suc k < length (layers net221) \<longrightarrow>
        (\<exists>d d1. layerErrors_at net221 [1, 0] [1] k = Some d \<and>
           layerErrors_at net221 [1, 0] [1] (Suc k) = Some d1 \<and>
           d = matmul (transpose_m (weights (layers n' ! Suc k))) d1 \<and>
           (all_zero net221 \<and> learnRate net221 \<noteq> 0 \<and> (\<exists>j<length [1 :: real]. [1 :: real] ! j \<noteq> 1/2) \<longrightarrow>
              (\<forall>r<Rows (weights (layers net221 ! k)).
                 At d r 0 \<noteq> 0 \<and>
                 At (matmul (transpose_m (weights (layers net221 ! Suc k))) d1) r 0 = 0 \<and>
                 At (biases (layers n' ! k)) r 0 \<noteq> At (biases (layers net221 ! k)) r 0 \<and>
                 (\<forall>c<Cols (weights (layers net221 ! k)).
                    (At (weights (layers n' ! k)) r c \<noteq> At (weights (layers net221 ! k)) r c) =
                    (0 < k \<or> [1, 0 :: real] ! c \<noteq> 0)))))"
    by blast
  from n' backpropagate_net221 have eq: "n' = net221_trained" by simp
  from all[rule_format, OF sk] obtain d d1 where
    d: "layerErrors_at net221 [1, 0] [1] 0 = Some d"
      "layerErrors_at net221 [1, 0] [1] (Suc 0) = Some d1"
      "d = matmul (transpose_m (weights (layers n' ! Suc 0))) d1"
    and z: "all_zero net221 \<and> learnRate net221 \<noteq> 0 \<and> (\<exists>j<length [1 :: real]. [1 :: real] ! j \<noteq> 1/2) \<longrightarrow>
              (\<forall>r<Rows (weights (layers net221 ! 0)).
                 At d r 0 \<noteq> 0 \<and>
                 At (matmul (transpose_m (weights (layers net221 ! Suc 0))) d1) r 0 = 0 \<and>
                 At (biases (layers n' ! 0)) r 0 \<noteq> At (biases (layers net221 ! 0)) r 0 \<and>
                 (\<forall>c<Cols (weights (layers net221 ! 0)).
                    (At (weights (layers n' ! 0)) r c \<noteq> At (weights (layers net221 ! 0)) r c) =
                    (0 < (0::nat) \<or> [1, 0 :: real] ! c \<noteq> 0)))"
    by blast
  from z all_zero_net221 lr ex r(1)
  have z0: "At d 0 0 \<noteq> 0"
    "At (matmul (transpose_m (weights (layers net221 ! Suc 0))) d1) 0 0 = 0"
    "At (biases (layers n' ! 0)) 0 0 \<noteq> At (biases (layers net221 ! 0)) 0 0"
    "\<forall>c<Cols (weights (layers net221 ! 0)).
        (At (weights (layers n' ! 0)) 0 c \<noteq> At (weights (layers net221 ! 0)) 0 c) =
        (0 < (0::nat) \<or> [1, 0 :: real] ! c \<noteq> 0)"
    by blast+
  from z0(4) r(2) have w: "At (weights (layers n' ! 0)) 0 0 \<noteq> At (weights (layers net221 ! 0)) 0 0"
    by simp
  have "\<exists>d d1. layerErrors_at net221 [1, 0] [1] 0 = Some d \<and>
      layerErrors_at net221 [1, 0] [1] (Suc 0) = Some d1 \<and>
      d = matmul (transpose_m (weights (layers net221_trained ! Suc 0))) d1 \<and>
      At d 0 0 \<noteq> 0 \<and>
      At (matmul (transpose_m (weights (layers net221 ! Suc 0))) d1) 0 0 = 0 \<and>
      At (biases (layers net221_trained ! 0)) 0 0 \<noteq> At (biases (layers net221 ! 0)) 0 0 \<and>
      At (weights (layers net221_trained ! 0)) 0 0 \<noteq> At (weights (layers net221 ! 0)) 0 0"
    using d z0(1,2,3) w unfolding eq by blast
  with topology_net221 h2 h3 sk all_zero_net221 lr r backpropagate_net221
  show ?thesis by simp
qed

section \<open>Forward evaluation in \<open>float64\<close>: the outputs lie in the closed interval\<close>

lemma round_even_bounds: "\<lfloor>q\<rfloor> \<le> round_even q" "round_even q \<le> \<lceil>q\<rceil>"
proof -
  show "\<lfloor>q\<rfloor> \<le> round_even q" by (simp add: round_even_def)
  have "\<lfloor>q\<rfloor> + 1 \<le> \<lceil>q\<rceil>" if "q \<noteq> of_int \<lfloor>q\<rfloor>"
  proof -
    from that have "of_int \<lfloor>q\<rfloor> < q" using of_int_floor_le[of q] by linarith
    then have "\<lfloor>q\<rfloor> < \<lceil>q\<rceil>" by (simp add: less_ceiling_iff)
    then show ?thesis by simp
  qed
  moreover have "\<lfloor>q\<rfloor> \<le> \<lceil>q\<rceil>" by (rule floor_le_ceiling)
  ultimately show "round_even q \<le> \<lceil>q\<rceil>"
    by (auto simp: round_even_def)
qed

lemma round_even_le: "q \<le> of_int N \<Longrightarrow> round_even q \<le> N"
  using round_even_bounds(2)[of q] by (meson ceiling_le order_trans)

lemma round_even_ge: "of_int N \<le> q \<Longrightarrow> N \<le> round_even q"
  using round_even_bounds(1)[of q] by (meson le_floor_iff order_trans)

lemma pow2_int: "0 \<le> k \<Longrightarrow> (2::real) powr of_int k = of_int (2 ^ nat k)"
  by (simp add: powr_real_of_int)

lemma ulp64_pos: "0 < ulp64 x"
  by (simp add: ulp64_def)

lemma exponent64_le:
  assumes "0 < x" "x \<le> 2 powr of_int k" "- 1022 \<le> k"
  shows "exponent64 x \<le> k"
proof -
  from assms(1,2) have "log 2 x \<le> of_int k" by (simp add: log_le_iff)
  then have "\<lfloor>log 2 x\<rfloor> \<le> k" by (simp add: floor_le_iff)
  with assms(1,3) show ?thesis by (simp add: exponent64_def)
qed

lemma round64_le_pow2:
  assumes "0 \<le> x" "x \<le> 2 powr of_int k" "- 1022 \<le> k"
  shows "round64 x \<le> 2 powr of_int k"
proof (cases "x = 0")
  case True then show ?thesis by (simp add: round64_def)
next
  case False
  with assms(1) have x: "0 < x" by simp
  let ?j = "exponent64 x"
  from exponent64_le[OF x assms(2,3)] have jk: "0 \<le> k - ?j + 52" by simp
  have u: "ulp64 x = 2 powr of_int (?j - 52)" by (simp add: ulp64_def)
  have split: "2 powr of_int k = 2 powr of_int (k - ?j + 52) * ulp64 x"
    unfolding u powr_add[symmetric] by simp
  have "x / ulp64 x \<le> 2 powr of_int (k - ?j + 52)"
    using assms(2) ulp64_pos[of x] unfolding split by (simp add: field_simps)
  then have "x / ulp64 x \<le> of_int (2 ^ nat (k - ?j + 52))"
    unfolding pow2_int[OF jk] .
  then have "round_even (x / ulp64 x) \<le> 2 ^ nat (k - ?j + 52)" by (rule round_even_le)
  then have "real_of_int (round_even (x / ulp64 x)) \<le> of_int (2 ^ nat (k - ?j + 52))"
    by (simp only: of_int_le_iff)
  then have "of_int (round_even (x / ulp64 x)) * ulp64 x \<le> of_int (2 ^ nat (k - ?j + 52)) * ulp64 x"
    using ulp64_pos[of x] by (simp only: mult_le_cancel_right_pos)
  then show ?thesis using False unfolding round64_def split pow2_int[OF jk] by simp
qed

lemma round64_ge_pow2:
  assumes "2 powr of_int k \<le> x" "- 1074 \<le> k"
  shows "2 powr of_int k \<le> round64 x"
proof -
  have x: "0 < x" using assms(1) powr_gt_zero[of 2 "of_int k"] by linarith
  then have x0: "x \<noteq> 0" by simp
  let ?m = "\<lfloor>log 2 x\<rfloor>" and ?j = "exponent64 x"
  have km: "k \<le> ?m"
  proof -
    from assms(1) x have "of_int k \<le> log 2 x" by (simp add: le_log_iff)
    then show ?thesis by (simp add: le_floor_iff)
  qed
  have mx: "2 powr of_int ?m \<le> x"
  proof -
    have "of_int ?m \<le> log 2 x" by simp
    with x show ?thesis by (subst (asm) le_log_iff) simp_all
  qed
  define t where "t = (if - 1022 \<le> ?m then ?m else k)"
  have t: "2 powr of_int t \<le> x" "k \<le> t" "0 \<le> t - ?j + 52"
    using mx assms km x by (auto simp: t_def exponent64_def)
  have u: "ulp64 x = 2 powr of_int (?j - 52)" by (simp add: ulp64_def)
  have split: "2 powr of_int t = 2 powr of_int (t - ?j + 52) * ulp64 x"
    unfolding u powr_add[symmetric] by simp
  have "2 powr of_int (t - ?j + 52) \<le> x / ulp64 x"
    using t(1) ulp64_pos[of x] unfolding split by (simp add: field_simps)
  then have "of_int (2 ^ nat (t - ?j + 52)) \<le> x / ulp64 x"
    unfolding pow2_int[OF t(3)] .
  then have "2 ^ nat (t - ?j + 52) \<le> round_even (x / ulp64 x)" by (rule round_even_ge)
  then have "real_of_int (2 ^ nat (t - ?j + 52)) \<le> of_int (round_even (x / ulp64 x))"
    by (simp only: of_int_le_iff)
  then have "of_int (2 ^ nat (t - ?j + 52)) * ulp64 x \<le> of_int (round_even (x / ulp64 x)) * ulp64 x"
    using ulp64_pos[of x] by (simp only: mult_le_cancel_right_pos)
  then have "2 powr of_int t \<le> round64 x"
    using x0 unfolding round64_def split pow2_int[OF t(3)] by simp
  moreover have "2 powr of_int k \<le> (2::real) powr of_int t" using t(2) by simp
  ultimately show ?thesis by linarith
qed

lemma round64_pow2: "- 1022 \<le> k \<Longrightarrow> round64 (2 powr of_int k) = 2 powr of_int k"
proof -
  assume k: "- 1022 \<le> k"
  have "round64 (2 powr of_int k) \<le> 2 powr of_int k"
    by (rule round64_le_pow2[OF _ _ k]) simp_all
  moreover have "2 powr of_int k \<le> round64 (2 powr of_int k)"
    by (rule round64_ge_pow2) (use k in simp_all)
  ultimately show ?thesis by simp
qed

lemma round64_1 [simp]: "round64 1 = 1"
  using round64_pow2[of 0] by simp

lemma round64_2 [simp]: "round64 2 = 2"
  using round64_pow2[of 1] by simp

lemma round64_half [simp]: "round64 (1/2) = 1/2"
  using round64_pow2[of "-1"] by (simp add: powr_minus_divide)

lemma round64_nonneg: "0 \<le> x \<Longrightarrow> 0 \<le> round64 x"
proof -
  assume x: "0 \<le> x"
  then have "0 \<le> x / ulp64 x" using ulp64_pos[of x] by simp
  then have "of_int 0 \<le> x / ulp64 x" by simp
  then have "0 \<le> round_even (x / ulp64 x)" by (rule round_even_ge)
  then show ?thesis using ulp64_pos[of x] by (simp add: round64_def)
qed

lemma round64_ge_1: "1 \<le> x \<Longrightarrow> 1 \<le> round64 x"
  using round64_ge_pow2[of 0 x] by simp

lemma round64_le_1: "0 \<le> x \<Longrightarrow> x \<le> 1 \<Longrightarrow> round64 x \<le> 1"
  using round64_le_pow2[of x 0] by simp

text \<open>Adding at most half a unit in the last place to one gives one: the tie goes to the even neighbour.\<close>

lemma round64_one_plus:
  assumes "0 \<le> e" "e \<le> 2 powr (- 53)"
  shows "round64 (1 + e) = 1"
proof -
  let ?x = "1 + e"
  have p53: "(2::real) powr (- 53) = 1 / 2 ^ 53" by (simp add: powr_minus_divide)
  have p52: "(2::real) powr (- 52) = 1 / 2 ^ 52" by (simp add: powr_minus_divide)
  have e1: "e < 1" using assms(2) unfolding p53 by simp
  have x: "0 < ?x" "?x \<noteq> 0" using assms(1) by simp_all
  have "\<lfloor>log 2 ?x\<rfloor> = 0"
    using assms(1) e1 x(1) by (subst floor_log_eq_powr_iff) simp_all
  then have ex: "exponent64 ?x = 0" using x(1) by (simp add: exponent64_def)
  have u: "ulp64 ?x = 1 / 2 ^ 52" by (simp add: ulp64_def ex p52)
  have q: "?x / ulp64 ?x = of_int (2 ^ 52) + e * 2 ^ 52" unfolding u by (simp add: algebra_simps)
  have f: "0 \<le> e * 2 ^ 52" "e * 2 ^ 52 \<le> 1/2"
    using assms unfolding p53 by (simp_all add: field_simps)
  then have fl: "\<lfloor>?x / ulp64 ?x\<rfloor> = 2 ^ 52"
    unfolding q by (subst floor_unique[where z="2 ^ 52"]) simp_all
  have fr: "?x / ulp64 ?x - of_int \<lfloor>?x / ulp64 ?x\<rfloor> = e * 2 ^ 52"
    unfolding fl unfolding q by simp
  have "round_even (?x / ulp64 ?x) = 2 ^ 52"
    unfolding round_even_def fr using f(2) by (simp add: fl)
  then show ?thesis using x(2) by (simp add: round64_def u)
qed

lemma exp_ge_pow2: "2 ^ n \<le> exp (real n)"
proof -
  have "(2::real) \<le> exp 1" using exp_ge_add_one_self[of 1] by simp
  then have "(2::real) ^ n \<le> exp 1 ^ n" by (intro power_mono) simp_all
  also have "\<dots> = exp (real n)" using exp_of_nat_mult[of n "1::real"] by simp
  finally show ?thesis .
qed

lemma Exp64_cases: "Exp64 x = None \<or> (\<exists>e. Exp64 x = Some e \<and> 0 \<le> e)"
  using round64_nonneg[of "exp x"] by (simp add: Exp64_def)

lemma sigmoid64_range: "0 \<le> sigmoid64 r c v \<and> sigmoid64 r c v \<le> 1"
proof -
  from Exp64_cases[of "- v"] show ?thesis
  proof
    assume "Exp64 (- v) = None"
    then show ?thesis by (simp add: sigmoid64_def)
  next
    assume "\<exists>e. Exp64 (- v) = Some e \<and> 0 \<le> e"
    then obtain e where e: "Exp64 (- v) = Some e" "0 \<le> e" by blast
    then have s: "1 \<le> round64 (1 + e)" by (intro round64_ge_1) simp
    then have "0 \<le> 1 / round64 (1 + e)" "1 / round64 (1 + e) \<le> 1" by simp_all
    then have "0 \<le> round64 (1 / round64 (1 + e))" "round64 (1 / round64 (1 + e)) \<le> 1"
      by (simp_all add: round64_nonneg round64_le_1)
    then show ?thesis by (simp add: sigmoid64_def e(1))
  qed
qed

text \<open>
  From 54 on the activation is exactly one: \<open>exp (- v)\<close> is below \<open>2^-54\<close>, so that adding it
  to one is rounded away.
\<close>

lemma sigmoid64_saturates:
  assumes "54 \<le> v"
  shows "sigmoid64 r c v = 1"
proof -
  have "(2::real) ^ 54 \<le> exp (real 54)" by (rule exp_ge_pow2)
  also have "\<dots> \<le> exp v" using assms by simp
  finally have "exp (- v) \<le> 1 / 2 ^ 54" by (simp add: exp_minus field_simps)
  also have "\<dots> \<le> (2::real) powr of_int (- 53)" by (simp add: powr_minus_divide)
  finally have le: "exp (- v) \<le> 2 powr of_int (- 53)" .
  have r: "round64 (exp (- v)) \<le> 2 powr of_int (- 53)"
    by (rule round64_le_pow2[OF _ le]) simp_all
  have "(2::real) powr of_int (- 53) < 2 powr 1024" by (simp add: powr_minus_divide)
  with r have E: "Exp64 (- v) = Some (round64 (exp (- v)))" by (simp add: Exp64_def)
  have "round64 (1 + round64 (exp (- v))) = 1"
    using r by (intro round64_one_plus) (simp_all add: round64_nonneg)
  then show ?thesis by (simp add: sigmoid64_def E)
qed

text \<open>Below -1025 the exponential overflows and the activation is exactly zero.\<close>

lemma sigmoid64_vanishes:
  assumes "v \<le> - 1025"
  shows "sigmoid64 r c v = 0"
proof -
  have "(2::real) ^ 1025 \<le> exp (real 1025)" by (rule exp_ge_pow2)
  also have "\<dots> \<le> exp (- v)" using assms by simp
  finally have "2 powr of_int 1025 \<le> exp (- v)" by simp
  then have "2 powr of_int 1025 \<le> round64 (exp (- v))" by (rule round64_ge_pow2) simp
  moreover have "(2::real) powr 1024 \<le> 2 powr of_int 1025" by simp
  ultimately have "Exp64 (- v) = None" by (simp add: Exp64_def)
  then show ?thesis by (simp add: sigmoid64_def)
qed

lemma sigmoid64_0 [simp]: "sigmoid64 r c 0 = 1/2"
proof -
  have "(1::real) < 2 powr 1024" by simp
  then have "Exp64 (- 0) = Some 1" by (simp add: Exp64_def)
  then show ?thesis by (simp add: sigmoid64_def)
qed

lemma spec_activation64_dims:
  assumes "chain_ok rin ls" "Rows x = rin" "Cols x = 1" "k \<le> length ls"
  shows "Rows (spec_activation64 ls x k) = (if k = 0 then rin else Rows (weights (ls ! (k - 1))))
         \<and> Cols (spec_activation64 ls x k) = 1"
  using assms(4)
proof (induction k)
  case 0 with assms show ?case by simp
next
  case (Suc k)
  then show ?case by (simp add: a64_of_def z_of_def)
qed

lemma Calc64_loop:
  assumes "chain_ok rin (layers n)" "Rows x = rin" "Cols x = 1" "j \<le> length (layers n)"
  shows "foldE (Calc64_body n x) [0..<j] None =
           Inr (if j = 0 then None else Some (spec_activation64 (layers n) x j))"
  using assms(4)
proof (induction j)
  case 0 show ?case by simp
next
  case (Suc j)
  then have j: "j < length (layers n)" and IH: "foldE (Calc64_body n x) [0..<j] None =
           Inr (if j = 0 then None else Some (spec_activation64 (layers n) x j))" by simp_all
  from spec_activation64_dims[OF assms(1-3), of j] j
  have d: "Rows (spec_activation64 (layers n) x j) = (if j = 0 then rin else Rows (weights (layers n ! (j - 1))))"
      "Cols (spec_activation64 (layers n) x j) = 1" by simp_all
  have step: "Calc64_body n x (if j = 0 then None else Some (spec_activation64 (layers n) x j)) j
      = Inr (Some (spec_activation64 (layers n) x (Suc j)))"
  proof (cases "j = 0")
    case True
    with layer_step_ok[OF assms(1) j d, of sigmoid64 "\<lambda>z a. Inr (Some a)"] j
    show ?thesis using idx_nat[of 0 "layers n"] by (simp add: Calc64_body_def a64_of_def)
  next
    case False
    with layer_step_ok[OF assms(1) j d, of sigmoid64 "\<lambda>z a. Inr (Some a)"] j
    show ?thesis by (simp add: Calc64_body_def a64_of_def)
  qed
  show ?case by (simp add: foldE_append IH step)
qed

lemma a64_of_entries:
  assumes "Cols (biases l) = 1 \<or> Cols x = 1" "Cols x = 1"
  shows "map (\<lambda>r. At (a64_of l x) r 0) [0..<Rows (a64_of l x)] = Data (a64_of l x)"
    and "within_closed 0 1 (Data (a64_of l x))"
    and "length (Data (a64_of l x)) = Rows (weights l)"
proof -
  have c: "Cols (z_of l x) = 1" using assms by (simp add: z_of_def)
  have r: "Rows (z_of l x) = Rows (weights l)" by (simp add: z_of_def)
  have e: "a64_of l x = tabulate (Rows (weights l)) 1 (\<lambda>r c. sigmoid64 (int r) (int c) (At (z_of l x) r c))"
    by (simp add: a64_of_def apply_m_def c r)
  show "map (\<lambda>r. At (a64_of l x) r 0) [0..<Rows (a64_of l x)] = Data (a64_of l x)"
    unfolding e by (simp add: column_entries_tabulate del: One_nat_def)
  show "within_closed 0 1 (Data (a64_of l x))"
    unfolding e Data_tabulate_col within_closed_def by (simp add: list_all_iff sigmoid64_range)
  show "length (Data (a64_of l x)) = Rows (weights l)"
    unfolding e by simp
qed

lemma Calc64_correct:
  assumes "topology_ok n" and "int (length data) = net_i n"
  shows "Calc64 n data = Inr (Data (spec_activation64 (layers n) (column data) (length (layers n))))"
    and "length (Data (spec_activation64 (layers n) (column data) (length (layers n)))) = nat (net_o n)"
    and "within_closed 0 1 (Data (spec_activation64 (layers n) (column data) (length (layers n))))"
proof -
  note p = topology_pos[OF assms(1)]
  have ch: "chain_ok (nat (net_i n)) (layers n)" by (rule topology_chain[OF assms(1)])
  have nd: "NewDense (net_i n) 1 (Some data) = Inr (column data)"
    using p(1) assms(2) by (rule NewDense_column)
  have rx: "Rows (column data) = nat (net_i n)" using assms(2) by simp
  obtain j where j: "length (layers n) = Suc j" using p(3) by (cases "length (layers n)") auto
  have loop: "foldE (Calc64_body n (column data)) [0..<nat (net_h n)] None =
      Inr (Some (spec_activation64 (layers n) (column data) (length (layers n))))"
    using Calc64_loop[OF ch rx, of "length (layers n)"] p(3,4) by simp
  let ?x = "spec_activation64 (layers n) (column data) j"
  have cx: "Cols ?x = 1"
    using spec_activation64_dims[OF ch rx, of j] j by simp
  have last: "spec_activation64 (layers n) (column data) (length (layers n)) = a64_of (layers n ! j) ?x"
    by (simp add: j)
  note ent = a64_of_entries[of "layers n ! j" ?x, OF _ cx]
  show "Calc64 n data = Inr (Data (spec_activation64 (layers n) (column data) (length (layers n))))"
    using assms(2) ent(1) cx by (simp add: Calc64_def nd loop last)
  show "within_closed 0 1 (Data (spec_activation64 (layers n) (column data) (length (layers n))))"
    using ent(2) cx by (simp add: last)
  show "length (Data (spec_activation64 (layers n) (column data) (length (layers n)))) = nat (net_o n)"
    using ent(3) cx p(5) j by (simp add: last)
qed

lemma preserves_Calc64_body_st [simp]: "preserves A (Calc64_body_st n inputs act k)"
  unfolding Calc64_body_st_def
  by (intro preserves_if preserves_bindS preserves_read_layer preserves_dot_st preserves_add_st
        preserves_fun_mat_st preserves_returnS)

lemma preserves_Calc64_st [simp]: "preserves A (Calc64_st n data)"
  unfolding Calc64_st_def
  by (intro preserves_if preserves_bindS preserves_foldSt preserves_Calc64_body_st
        preserves_NewDense_st preserves_load preserves_returnS preserves_liftE)

lemma Calc64_body_sim:
  assumes v: "valid_net s n" and ui: "usable s inputs" and ar: "act_rel s r a"
  shows "(\<exists>e. Calc64_body (view s n) (deref s inputs) a k = Inl e \<and>
              fst (Calc64_body_st n inputs r k s) = Inl e) \<or>
         (\<exists>r' s'. grows A s s' \<and> usable s' r' \<and>
              Calc64_body (view s n) (deref s inputs) a k = Inr (Some (deref s' r')) \<and>
              Calc64_body_st n inputs r k s = (Inr r', s'))"
proof (cases "idx (layer_arrays s ! obj_layers n) (int k)")
  case (Inl e)
  then have "fst (read_layer n (int k) s) = Inl e" by (simp add: read_layer_valid[OF v])
  then have "fst (Calc64_body_st n inputs r k s) = Inl e"
    unfolding Calc64_body_st_def by (auto intro: bindS_Inl)
  moreover from Inl have "idx (layers (view s n)) (int k) = Inl e"
    by (simp add: layers_view idx_map)
  then have "Calc64_body (view s n) (deref s inputs) a k = Inl e"
    by (cases "k = 0") (simp_all add: Calc64_body_def)
  ultimately show ?thesis by blast
next
  case (Inr lo)
  then have k: "k < length (layer_arrays s ! obj_layers n)" and lo: "lo = layer_arrays s ! obj_layers n ! k"
    by (auto simp: idx_def split: if_splits)
  from valid_net_layer[OF v k] lo have uw: "usable s (weights_ref lo)" and ub: "usable s (biases_ref lo)"
    by (simp_all add: valid_ref_usable)
  have rl: "read_layer n (int k) s = (Inr lo, s)" using Inr by (simp add: read_layer_valid[OF v])
  note rb = bindS_Inr[where m="read_layer n (int k)" and s=s, OF rl]
  have rb0: "k = 0 \<Longrightarrow> bindS (read_layer n 0) f s = f lo s" for f :: "layer_obj \<Rightarrow> matref option st"
    using rb[of f] by simp
  have il: "idx (layers (view s n)) (int k) =
      Inr \<lparr>weights = deref s (weights_ref lo), biases = deref s (biases_ref lo)\<rparr>"
    using Inr by (simp add: layers_view idx_map)
  then have il0: "k = 0 \<Longrightarrow> idx (layers (view s n)) 0 =
      Inr \<lparr>weights = deref s (weights_ref lo), biases = deref s (biases_ref lo)\<rparr>"
    by simp
  show ?thesis
  proof (cases "k \<noteq> 0 \<and> r = None")
    case True
    with ar have a: "a = None" by (auto simp: act_rel_def usable_def)
    have "fst (dot_st (weights_ref lo) None s) = Inl NilDereference"
      unfolding dot_st_def bindS_Inr[where m="load (weights_ref lo)" and s=s, OF load_usable[OF uw]]
      by (rule bindS_Inl) simp
    then have "fst (Calc64_body_st n inputs r k s) = Inl NilDereference"
      using True unfolding Calc64_body_st_def by (simp add: rb rb0) (rule bindS_Inl)
    moreover have "Calc64_body (view s n) (deref s inputs) a k = Inl NilDereference"
      using True a by (simp add: Calc64_body_def il)
    ultimately show ?thesis by blast
  next
    case False
    define x where "x = (if k = 0 then inputs else r)"
    from False ar ui have ux: "usable s x" by (auto simp: x_def act_rel_def)
    have val: "Calc64_body (view s n) (deref s inputs) a k =
       bindE (dot (deref s (weights_ref lo)) (deref s x)) (\<lambda>wx. bindE (add wx (deref s (biases_ref lo)))
                   (\<lambda>z. bindE (fun_mat sigmoid64 z) (\<lambda>a. Inr (Some a))))"
      using False ar by (auto simp: Calc64_body_def il il0 x_def act_rel_def usable_def)
    have run: "Calc64_body_st n inputs r k s =
       bindS (dot_st (weights_ref lo) x) (\<lambda>wx. bindS (add_st wx (biases_ref lo))
                   (\<lambda>z. bindS (fun_mat_st sigmoid64 z) (\<lambda>a. returnS a))) s"
      by (simp add: Calc64_body_st_def rb rb0 x_def)
    from layer_step_sim[OF uw ub ux, of sigmoid64 "\<lambda>z a. Inr (Some a)" "\<lambda>z a. returnS a" A]
    show ?thesis unfolding val run by (auto simp: returnS_def)
  qed
qed

lemma Calc64_loop_sim:
  assumes v: "valid_net s n" and ui: "usable s inputs" and ar: "act_rel s r a"
  shows "(\<exists>e. foldE (Calc64_body (view s n) (deref s inputs)) ks a = Inl e \<and>
              fst (foldSt (Calc64_body_st n inputs) ks r s) = Inl e) \<or>
         (\<exists>r' s' a'. grows {} s s' \<and> act_rel s' r' a' \<and>
              foldE (Calc64_body (view s n) (deref s inputs)) ks a = Inr a' \<and>
              foldSt (Calc64_body_st n inputs) ks r s = (Inr r', s'))"
  using assms
proof (induction ks arbitrary: s r a)
  case Nil
  then show ?case by (auto simp: returnS_def)
next
  case (Cons k ks)
  from Calc64_body_sim[OF Cons.prems, of k "{}"]
  show ?case
  proof (elim disjE exE conjE)
    fix e assume "Calc64_body (view s n) (deref s inputs) a k = Inl e"
      "fst (Calc64_body_st n inputs r k s) = Inl e"
    then show ?thesis by (auto intro: bindS_Inl)
  next
    fix r1 s1
    assume g: "grows {} s s1" and u1: "usable s1 r1"
      and val: "Calc64_body (view s n) (deref s inputs) a k = Inr (Some (deref s1 r1))"
      and run: "Calc64_body_st n inputs r k s = (Inr r1, s1)"
    from view_grows[OF g Cons.prems(1)] have v1: "view s1 n = view s n" "valid_net s1 n" by simp_all
    from usable_grows[OF g Cons.prems(2)] have i1: "usable s1 inputs" "deref s1 inputs = deref s inputs"
      by simp_all
    have a1: "act_rel s1 r1 (Some (deref s1 r1))" using u1 by (simp add: act_rel_def)
    from Cons.IH[OF v1(2) i1(1) a1]
    show ?thesis
      unfolding v1(1) i1(2)
      using g grows_trans[OF g]
      by (auto simp: val bindS_Inr[where m="Calc64_body_st n inputs r k" and s=s, OF run])
  qed
qed

lemma Calc64_st_sim:
  assumes v: "valid_net s n"
  shows "fst (Calc64_st n data s) = Calc64 (view s n) data"
proof (cases "int (length data) \<noteq> obj_i n")
  case True
  then show ?thesis by (simp add: Calc64_st_def Calc64_def liftE_def view_def)
next
  case False
  then have len: "int (length data) = obj_i n" by simp
  have i: "net_i (view s n) = obj_i n" "net_h (view s n) = obj_h n" by (simp_all add: view_def)
  show ?thesis
  proof (cases "NewDense (obj_i n) 1 (Some data)")
    case (Inl e)
    then have "fst (NewDense_st (obj_i n) 1 (Some data) s) = Inl e" by (simp add: NewDense_st_def)
    then have "fst (Calc64_st n data s) = Inl e"
      unfolding Calc64_st_def using len by (auto intro: bindS_Inl)
    with Inl len show ?thesis by (simp add: Calc64_def i)
  next
    case (Inr m)
    let ?s1 = "s\<lparr>dense := dense s @ [m]\<rparr>"
    let ?r1 = "Some (Ref (length (dense s)))"
    have nd: "NewDense_st (obj_i n) 1 (Some data) s = (Inr ?r1, ?s1)"
      using Inr by (simp add: NewDense_st_def)
    note nb = bindS_Inr[where m="NewDense_st (obj_i n) 1 (Some data)" and s=s, OF nd]
    have g1: "grows {} s ?s1" by simp
    from view_grows[OF g1 v] have v1: "view ?s1 n = view s n" "valid_net ?s1 n" by simp_all
    have u1: "usable ?s1 ?r1" "deref ?s1 ?r1 = m" by simp_all
    have a0: "act_rel ?s1 None None" by (simp add: act_rel_def)
    have val: "Calc64 (view s n) data =
        bindE (foldE (Calc64_body (view s n) m) [0..<nat (obj_h n)] None) (\<lambda>activation.
        case activation of
          None \<Rightarrow> Inl NilDereference
        | Some a \<Rightarrow> Inr (map (\<lambda>r. At a r 0) [0..<Rows a]))"
      using len Inr by (simp add: Calc64_def i)
    have run: "Calc64_st n data s =
        bindS (foldSt (Calc64_body_st n ?r1) [0..<nat (obj_h n)] None) (\<lambda>activation.
        bindS (load activation) (\<lambda>a.
        returnS (map (\<lambda>r. At a r 0) [0..<Rows a]))) ?s1"
      using len by (simp add: Calc64_st_def nb)
    from Calc64_loop_sim[OF v1(2) u1(1) a0, of "[0..<nat (obj_h n)]"]
    show ?thesis unfolding v1(1) u1(2) val run
    proof (elim disjE exE conjE)
      fix e assume "foldE (Calc64_body (view s n) m) [0..<nat (obj_h n)] None = Inl e"
        "fst (foldSt (Calc64_body_st n ?r1) [0..<nat (obj_h n)] None ?s1) = Inl e"
      then show "fst (bindS (foldSt (Calc64_body_st n ?r1) [0..<nat (obj_h n)] None) (\<lambda>activation.
        bindS (load activation) (\<lambda>a.
        returnS (map (\<lambda>r. At a r 0) [0..<Rows a]))) ?s1) =
        bindE (foldE (Calc64_body (view s n) m) [0..<nat (obj_h n)] None) (\<lambda>activation.
        case activation of
          None \<Rightarrow> Inl NilDereference
        | Some a \<Rightarrow> Inr (map (\<lambda>r. At a r 0) [0..<Rows a]))"
        by (auto intro: bindS_Inl)
    next
      fix r' s' a'
      assume ar: "act_rel s' r' a'"
        and fv: "foldE (Calc64_body (view s n) m) [0..<nat (obj_h n)] None = Inr a'"
        and fr: "foldSt (Calc64_body_st n ?r1) [0..<nat (obj_h n)] None ?s1 = (Inr r', s')"
      note fb = bindS_Inr[where m="foldSt (Calc64_body_st n ?r1) [0..<nat (obj_h n)] None" and s="?s1", OF fr]
      from ar show "fst (bindS (foldSt (Calc64_body_st n ?r1) [0..<nat (obj_h n)] None) (\<lambda>activation.
        bindS (load activation) (\<lambda>a.
        returnS (map (\<lambda>r. At a r 0) [0..<Rows a]))) ?s1) =
        bindE (foldE (Calc64_body (view s n) m) [0..<nat (obj_h n)] None) (\<lambda>activation.
        case activation of
          None \<Rightarrow> Inl NilDereference
        | Some a \<Rightarrow> Inr (map (\<lambda>r. At a r 0) [0..<Rows a]))"
        unfolding fb fv
        by (auto simp: act_rel_def bindS_def returnS_def)
    qed
  qed
qed

lemma NewNetwork_net111: "NewNetwork 1 1 [1] 1000 False rnd = Inr (net111, rnd)"
  by (simp add: NewNetwork_def NewNetwork_body_def upt_2 idx_def newLayer_def NewDense_def net111_def zeros_def)

lemma topology_net111: "topology_ok net111"
  by (simp add: topology_ok_def net111_def upt_2 layer_ok_def wf_dense_def zeros_def)

lemma topology_net111_trained: "topology_ok net111_trained"
  by (simp add: topology_ok_def net111_trained_def upt_2 layer_ok_def wf_dense_def)

lemma backpropagate_net111: "backpropagate net111 [1] [1] = (None, net111_trained)"
proof -
  have pre: "backpropagate_prelude net111 [1] [1] =
     Inr (\<lparr>Rows = 1, Cols = 1, Data = [1]\<rparr>,
          [\<lparr>Rows = 1, Cols = 1, Data = [0]\<rparr>, \<lparr>Rows = 1, Cols = 1, Data = [0]\<rparr>],
          [\<lparr>Rows = 1, Cols = 1, Data = [1/2]\<rparr>, \<lparr>Rows = 1, Cols = 1, Data = [1/2]\<rparr>],
          \<lparr>Rows = 1, Cols = 1, Data = [1/2]\<rparr>)"
    by (simp add: backpropagate_prelude_def net111_def zeros_def upt_2 forward_body_def idx_def
          mat_defs numeral_2_eq_2)
  have run: "backward_run net111 \<lparr>Rows = 1, Cols = 1, Data = [1]\<rparr>
          [\<lparr>Rows = 1, Cols = 1, Data = [0]\<rparr>, \<lparr>Rows = 1, Cols = 1, Data = [0]\<rparr>]
          [\<lparr>Rows = 1, Cols = 1, Data = [1/2]\<rparr>, \<lparr>Rows = 1, Cols = 1, Data = [1/2]\<rparr>]
          \<lparr>Rows = 1, Cols = 1, Data = [1/2]\<rparr> 0 =
     (None, (layers net111_trained, \<lparr>Rows = 1, Cols = 1, Data = [125/4]\<rparr>))"
    by (simp add: backward_run_def backward_body_def net111_def net111_trained_def zeros_def upt_2
          idx_def mat_defs numeral_2_eq_2)
  have "net111\<lparr>layers := layers net111_trained\<rparr> = net111_trained"
    by (simp add: net111_def net111_trained_def)
  then show ?thesis
    by (simp only: backpropagate_def pre run sum.case prod.case)
qed

lemma Train_net111: "\<exists>c. Train net111 [[1]] [[1]] 1 = (None, net111_trained, [c])"
proof -
  have i: "int (length [1 :: real]) = net_i net111_trained" by (simp add: net111_trained_def)
  from Calc_correct[OF topology_net111_trained i]
  obtain out where c: "Calc net111_trained [1] = Inr out" "length out = 1"
    by (simp add: net111_trained_def)
  then obtain v where "out = [v]" by (cases out) simp_all
  with c show ?thesis
    by (simp add: Train_def Train_epoch_def Train_example_def idx_def backpropagate_net111
          totalCost_def)
qed

lemma Calc64_net111_trained: "Calc64 net111_trained [1] = Inr [1]"
  by (simp add: Calc64_def Calc64_body_def net111_trained_def upt_2 idx_def mat_defs
        numeral_2_eq_2 sigmoid64_saturates)

lemma Calc64_net221: "Calc64 net221 [1, 0] = Inr [1/2]"
  by (simp add: Calc64_def Calc64_body_def net221_def zeros_def upt_2 idx_def mat_defs
        numeral_2_eq_2)

text \<open>
  Claim C2. For a network that satisfies the invariant of section 3 and an input of length
  \<open>inputSize\<close>, \<open>Calc\<close> returns, without a panic, the entries of the last activation,
  where \<open>activation_i = sigmoid(weights_i \<cdot> activation_{i-1} + biases_i)\<close> and
  \<open>activation_{-1}\<close> is the input; the result has \<open>outputSize\<close> entries, each in the closed
  interval from \<open>0\<close> to \<open>1\<close>; and after the call this network, and every other network of
  the store, holds the same matrices as before. The activation function is evaluated in
  \<open>float64\<close>; the matrices are finite and their products and sums exact.
\<close>

theorem Calc_forward_closed:
  assumes "valid_net s n" and "topology_ok (view s n)" and "int (length data) = obj_i n"
  shows "\<exists>out s'. Calc64_st n data s = (Inr out, s') \<and>
           Calc64 (view s n) data = Inr out \<and>
           out = Data (spec_activation64 (layers (view s n)) (column data)
                        (length (layers (view s n)))) \<and>
           length out = nat (obj_o n) \<and> within_closed 0 1 out \<and>
           view s' n = view s n \<and>
           (\<forall>m. valid_net s m \<longrightarrow> view s' m = view s m)"
proof -
  have i: "int (length data) = net_i (view s n)" "net_o (view s n) = obj_o n"
    using assms(3) by (simp_all add: view_def)
  note c = Calc64_correct[OF assms(2) i(1)]
  obtain r s' where rs: "Calc64_st n data s = (r, s')" by (cases "Calc64_st n data s")
  with Calc64_st_sim[OF assms(1), of data] c(1) have r: "r = Inr (Data (spec_activation64 (layers (view s n)) (column data)
                        (length (layers (view s n)))))" by simp
  have "preserves {} (Calc64_st n data)" by simp
  with rs have g: "grows {} s s'" by (simp add: preserves_def)
  have fr: "view s' m = view s m" if "valid_net s m" for m
    using view_grows(1)[OF g that] by simp
  show ?thesis using rs r c i(2) fr[OF assms(1)] fr by auto
qed

text \<open>
  Claim C2, as stated with the open interval, fails: the network that \<open>NewNetwork(1, 1,
  [1], 1000, false)\<close> builds, trained for one epoch on the example \<open>[1] \<mapsto> [1]\<close>, satisfies
  the invariant, and \<open>Calc\<close> returns exactly \<open>1\<close> for the input \<open>[1]\<close>: the pre-activations are
  \<open>23437.5\<close> and \<open>312.5\<close>, and \<open>1 + exp (- 312.5)\<close> is rounded to \<open>1\<close>.
\<close>

theorem Calc_reaches_one:
  "NewNetwork 1 1 [1] 1000 False (sconst 0) = Inr (net111, sconst 0) \<and>
   (\<exists>c. Train net111 [[1]] [[1]] 1 = (None, net111_trained, [c])) \<and>
   topology_ok net111_trained \<and> int (length [1 :: real]) = net_i net111_trained \<and>
   Calc64 net111_trained [1] = Inr [1] \<and> \<not> within_open 0 1 [1]"
  using NewNetwork_net111[of "sconst 0"] Train_net111 topology_net111_trained Calc64_net111_trained
  by (simp add: within_open_def net111_trained_def)

theorem Calc_forward_closed_witness:
  "valid_net store221 obj221 \<and> topology_ok (view store221 obj221) \<and>
   int (length [1, 0 :: real]) = obj_i obj221 \<and>
   (\<exists>out s'. Calc64_st obj221 [1, 0] store221 = (Inr out, s') \<and>
           Calc64 (view store221 obj221) [1, 0] = Inr out \<and>
           out = Data (spec_activation64 (layers (view store221 obj221)) (column [1, 0])
                        (length (layers (view store221 obj221)))) \<and>
           length out = nat (obj_o obj221) \<and> within_closed 0 1 out \<and>
           view s' obj221 = view store221 obj221 \<and>
           (\<forall>m. valid_net store221 m \<longrightarrow> view s' m = view store221 m))"
proof -
  have t: "topology_ok (view store221 obj221)" by (simp add: view_obj221 topology_net221)
  have l: "int (length [1, 0 :: real]) = obj_i obj221" by (simp add: obj221_def)
  from Calc_forward_closed[OF valid_obj221 t l] valid_obj221 t l show ?thesis by (intro conjI)
qed

end
